theory Spec2Isabelle
  imports Main "HOL-Library.AList" "HOL-Library.Char_ord" "HOL-Library.List_Lexorder"
begin

text \<open>
  A shallow embedding of the export and archive pipeline of VisionParse (\<open>app.py\<close>):
  the annotated text of a converted document (\<open>generate_txt\<close>), its table files
  (\<open>export_tables\<close>), the batch loop of \<open>main\<close> and the ZIP archive built after it. The
  document converter, pandas and the exporters of the document object are parameters of
  the model; the files below the current directory are an explicit state; an exception
  is the left injection of a sum, and it ends whatever was running, as in the program,
  which handles none.
\<close>

section \<open>Strings and path names\<close>

text \<open>
  Python strings are modelled as \<open>string\<close> (lists of 8-bit characters); the
  functions below follow \<open>str\<close> on ASCII input.
\<close>

definition is_space :: "char \<Rightarrow> bool" where
  \<comment> \<open>the ASCII characters \<open>str.strip()\<close> removes: TAB..CR, FS..US and the blank\<close>
  "is_space c = (let n = (of_char c :: nat) in (9 \<le> n \<and> n \<le> 13) \<or> (28 \<le> n \<and> n \<le> 32))"

definition strip :: "string \<Rightarrow> string" where
  "strip s = rev (dropWhile is_space (rev (dropWhile is_space s)))"

definition lower_char :: "char \<Rightarrow> char" where
  "lower_char c = (let n = (of_char c :: nat) in if 65 \<le> n \<and> n \<le> 90 then char_of (n + 32) else c)"

definition lower :: "string \<Rightarrow> string" where
  "lower s = map lower_char s"

definition lstrip_dot :: "string \<Rightarrow> string" where
  \<comment> \<open>\<open>s.lstrip(".")\<close>\<close>
  "lstrip_dot s = dropWhile (\<lambda>c. c = CHR ''.'') s"

fun rfind :: "char \<Rightarrow> string \<Rightarrow> nat option" where
  \<comment> \<open>\<open>s.rfind(c)\<close>, with \<open>None\<close> for Python's \<open>-1\<close>\<close>
  "rfind c [] = None"
| "rfind c (x # xs) =
     (case rfind c xs of
        Some i \<Rightarrow> Some (Suc i)
      | None \<Rightarrow> if x = c then Some 0 else None)"

fun split :: "char \<Rightarrow> string \<Rightarrow> string list" where
  \<comment> \<open>\<open>s.split(c)\<close>\<close>
  "split c [] = [[]]"
| "split c (x # xs) =
     (if x = c then [] # split c xs
      else (case split c xs of
              [] \<Rightarrow> [[x]]
            | w # ws \<Rightarrow> (x # w) # ws))"

definition endswith :: "string \<Rightarrow> string \<Rightarrow> bool" where
  "endswith s suf = (length suf \<le> length s \<and> drop (length s - length suf) s = suf)"

fun join :: "string \<Rightarrow> string list \<Rightarrow> string" where
  \<comment> \<open>\<open>sep.join(xs)\<close>\<close>
  "join sep [] = []"
| "join sep [x] = x"
| "join sep (x # y # ys) = x @ sep @ join sep (y # ys)"

definition digit_char :: "nat \<Rightarrow> char" where
  "digit_char d = char_of (48 + d)"

fun str_nat :: "nat \<Rightarrow> string" where
  \<comment> \<open>\<open>str(n)\<close> for a non-negative integer: its decimal digits\<close>
  "str_nat n = (if n < 10 then [digit_char n] else str_nat (n div 10) @ [digit_char (n mod 10)])"

declare str_nat.simps [simp del]

text \<open>
  A \<open>pathlib\<close> path is kept as the list of its components, relative to the current
  directory of the process (the program forms relative paths only). \<open>Path(s)\<close> splits at
  the separator and drops empty and \<open>.\<close> components, but keeps \<open>..\<close>; \<open>name\<close>, \<open>suffix\<close>
  and \<open>stem\<close> follow \<open>PurePath\<close> as in Python 3.8 to 3.13: the suffix starts at the last
  dot of the name, unless that dot is its first or its last character.
\<close>

type_synonym path = "string list"

definition Path :: "string \<Rightarrow> path" where
  "Path s = [c \<leftarrow> split (CHR ''/'') s. c \<noteq> [] \<and> c \<noteq> ''.'']"

definition path_name :: "path \<Rightarrow> string" where
  \<comment> \<open>\<open>p.name\<close>: the final component, empty for the path without components\<close>
  "path_name p = (if p = [] then [] else last p)"

definition parent :: "path \<Rightarrow> path" where
  \<comment> \<open>\<open>p.parent\<close>\<close>
  "parent p = butlast p"

definition joinpath :: "path \<Rightarrow> string \<Rightarrow> path" where
  \<comment> \<open>\<open>p / s\<close> for a string \<open>s\<close> that does not start with the separator\<close>
  "joinpath p s = p @ Path s"

definition suffix :: "path \<Rightarrow> string" where
  \<comment> \<open>\<open>p.suffix\<close>\<close>
  "suffix p =
     (let name = path_name p
      in case rfind (CHR ''.'') name of
           None \<Rightarrow> []
         | Some i \<Rightarrow> if 0 < i \<and> i < length name - 1 then drop i name else [])"

definition stem :: "path \<Rightarrow> string" where
  \<comment> \<open>\<open>p.stem\<close>: the name without its suffix\<close>
  "stem p =
     (let name = path_name p
      in case rfind (CHR ''.'') name of
           None \<Rightarrow> name
         | Some i \<Rightarrow> if 0 < i \<and> i < length name - 1 then take i name else name)"

section \<open>The document model handed over by the parsing engine\<close>

text \<open>
  A pandas \<open>DataFrame\<close> is kept as its rows of cells; how it prints is a parameter of
  the model (see \<open>engine\<close> below).
\<close>

type_synonym dataframe = "string list list"

datatype error =
    ExportRaised string      \<comment> \<open>\<open>export_to_dataframe()\<close> raised\<close>
  | ConvertRaised string     \<comment> \<open>\<open>convert_all\<close> / \<open>next(gen)\<close> raised\<close>
  | ReadExcelRaised string   \<comment> \<open>\<open>pd.read_excel\<close> raised\<close>
  | OSError path             \<comment> \<open>a file operation on this path raised (\<open>FileExistsError\<close>,
                                 \<open>FileNotFoundError\<close>, \<open>NotADirectoryError\<close> or
                                 \<open>IsADirectoryError\<close>, all of them \<open>OSError\<close>s)\<close>

text \<open>
  A \<open>TableItem\<close> carries the outcome of calling its \<open>export_to_dataframe()\<close>: the
  message of the exception it raises, or the frame it returns.
\<close>

datatype table = TableItem (export_to_dataframe: "string + dataframe")

text \<open>
  The items \<open>iterate_items()\<close> yields. A section header has an integer \<open>level\<close> and a
  \<open>text\<close>; other text items have a \<open>text\<close> only; a \<open>TableItem\<close> and a \<open>PictureItem\<close>
  have neither attribute.
\<close>

datatype element =
    Heading int string
  | TextBlock string
  | Table table
  | Picture

fun level_attr :: "element \<Rightarrow> int option" where
  \<comment> \<open>\<open>getattr(el, "level", None)\<close>\<close>
  "level_attr (Heading l t) = Some l"
| "level_attr _ = None"

fun text_attr :: "element \<Rightarrow> string" where
  \<comment> \<open>\<open>getattr(el, "text", "")\<close>\<close>
  "text_attr (Heading l t) = t"
| "text_attr (TextBlock t) = t"
| "text_attr _ = []"

fun table_of :: "element \<Rightarrow> table option" where
  \<comment> \<open>\<open>Some\<close> exactly when \<open>isinstance(el, TableItem)\<close>\<close>
  "table_of (Table t) = Some t"
| "table_of _ = None"

fun is_picture_item :: "element \<Rightarrow> bool" where
  \<comment> \<open>\<open>isinstance(el, PictureItem)\<close>\<close>
  "is_picture_item Picture = True"
| "is_picture_item _ = False"

record document =
  items :: "element list"     \<comment> \<open>\<open>document.iterate_items()\<close>, in the order yielded\<close>
  tables :: "table list"      \<comment> \<open>\<open>document.tables\<close>\<close>

datatype conv_status = Success | PartialSuccess | Failure

record conv_result =
  status :: conv_status       \<comment> \<open>\<open>res.status\<close>; never read by the program\<close>
  doc :: document             \<comment> \<open>\<open>res.document\<close>\<close>

record upload =
  name :: string              \<comment> \<open>\<open>f.name\<close>\<close>
  data :: string              \<comment> \<open>\<open>f.read()\<close>\<close>

text \<open>
  What \<open>save_as_markdown\<close> and \<open>save_as_html\<close> produce for a document: the text they
  write to the file they are given and, with \<open>image_mode=ImageRefMode.REFERENCED\<close>, the
  directory they make beside that file with the picture files they save in it (\<open>None\<close>
  for an exporter that makes no directory).
\<close>

record export =
  content :: string
  saved :: "(string \<times> (string \<times> string) list) option"

text \<open>
  The external collaborators: the converter built by \<open>get_converter\<close>, pandas and the
  exporters of the document object. \<open>convert_all\<close> stands for
  \<open>next(converter.convert_all([src], ..., raises_on_error=False))\<close>, which either
  raises or returns a result of any status. The exporters are given the document and
  the name of the file to write.
\<close>

record engine =
  convert_all :: "upload \<Rightarrow> string + conv_result"
  read_excel :: "string \<Rightarrow> string + (string \<times> dataframe) list"
  to_string :: "dataframe \<Rightarrow> string"
  to_csv :: "dataframe \<Rightarrow> string"
  to_markdown :: "dataframe \<Rightarrow> string"
  to_html :: "dataframe \<Rightarrow> string"
  save_as_markdown :: "document \<Rightarrow> string \<Rightarrow> export"
  save_as_html :: "document \<Rightarrow> string \<Rightarrow> export"
  export_to_json :: "document \<Rightarrow> string"

section \<open>The files\<close>

text \<open>
  The state of the file system below the current directory: a store that maps the
  location of every entry, the list of names leading to it, to what is there. The
  current directory itself is the location \<open>[]\<close>; the store's order is the order in
  which a directory lists its entries. A path the program forms may hold \<open>..\<close>, which
  \<open>locate\<close> follows as the operating system does: \<open>d/..\<close> is the directory above \<open>d\<close>
  when \<open>d\<close> is a directory, and no file otherwise. Paths that leave the current directory
  are not followed (the program forms none).
\<close>

datatype node = RegFile string | Directory

type_synonym filesystem = "(path \<times> node) list"

definition dir_at :: "filesystem \<Rightarrow> path \<Rightarrow> bool" where
  "dir_at fs q = (q = [] \<or> map_of fs q = Some Directory)"

fun locate :: "filesystem \<Rightarrow> path \<Rightarrow> path \<Rightarrow> path option" where
  "locate fs cur [] = Some cur"
| "locate fs cur (c # cs) =
     (if c = ''..'' then
        (if cur \<noteq> [] \<and> dir_at fs cur then locate fs (butlast cur) cs else None)
      else locate fs (cur @ [c]) cs)"

definition resolve :: "filesystem \<Rightarrow> path \<Rightarrow> path option" where
  "resolve fs p = locate fs [] p"

definition mkdir_at :: "path \<Rightarrow> filesystem \<Rightarrow> error + filesystem" where
  \<comment> \<open>make the directory at a location unless it is there: an error when something
      else is there or the directory above is missing\<close>
  "mkdir_at q fs =
     (if dir_at fs q then Inr fs
      else if map_of fs q \<noteq> None then Inl (OSError q)
      else if dir_at fs (butlast q) then Inr (fs @ [(q, Directory)])
      else Inl (OSError q))"

definition write_at :: "path \<Rightarrow> string \<Rightarrow> filesystem \<Rightarrow> error + filesystem" where
  \<comment> \<open>create or replace the regular file at a location: an error when a directory is
      there or the directory above is missing\<close>
  "write_at q c fs =
     (if dir_at fs q then Inl (OSError q)
      else if dir_at fs (butlast q) then Inr (AList.update q (RegFile c) fs)
      else Inl (OSError q))"

definition mkdir :: "path \<Rightarrow> filesystem \<Rightarrow> error + filesystem" where
  \<comment> \<open>\<open>p.mkdir(exist_ok=True)\<close>\<close>
  "mkdir p fs =
     (case resolve fs p of
        None \<Rightarrow> Inl (OSError p)
      | Some q \<Rightarrow> mkdir_at q fs)"

definition write_text :: "path \<Rightarrow> string \<Rightarrow> filesystem \<Rightarrow> error + filesystem" where
  \<comment> \<open>\<open>p.write_text(c, encoding="utf-8")\<close>\<close>
  "write_text p c fs =
     (case resolve fs p of
        None \<Rightarrow> Inl (OSError p)
      | Some q \<Rightarrow> write_at q c fs)"

definition entries :: "filesystem \<Rightarrow> path \<Rightarrow> path list" where
  \<comment> \<open>the locations of the entries of the directory at a location, as listed\<close>
  "entries fs q = [k \<leftarrow> map fst fs. k \<noteq> [] \<and> butlast k = q]"

definition iterdir :: "filesystem \<Rightarrow> path \<Rightarrow> path list" where
  \<comment> \<open>\<open>p.iterdir()\<close>, called on directories only\<close>
  "iterdir fs p =
     (case resolve fs p of
        None \<Rightarrow> []
      | Some q \<Rightarrow> entries fs q)"

definition glob_png :: "filesystem \<Rightarrow> path \<Rightarrow> string list" where
  \<comment> \<open>the names of \<open>sorted(base.glob("*.png"))\<close>: the pattern matches every entry,
      file or directory, whose name ends in \<open>.png\<close>\<close>
  "glob_png fs base = sort [n \<leftarrow> map path_name (iterdir fs base). endswith n ''.png'']"

section \<open>The annotated text: \<open>generate_txt\<close>\<close>

text \<open>
  \<^verbatim>\<open>
  def generate_txt(res, base: Path):
      lines, ti, pi = [], 0, 0
      imgs = sorted(base.glob("*.png"))
      for el, _ in res.document.iterate_items():
          lvl = getattr(el, "level", None)
          txt = getattr(el, "text", "").strip()
          if isinstance(lvl, int) and txt:
              lines.append(f"{'#'*lvl} {txt}")
          elif isinstance(el, TableItem):
              ti += 1
              df = el.export_to_dataframe()
              lines.append(f"[Table {ti}]")
              lines.append(df.to_string(index=False))
          elif isinstance(el, PictureItem):
              fn = imgs[pi].name if pi < len(imgs) else f"{base.name}_img_{pi+1}.png"
              pi += 1
              lines.append(f"[Image: {fn}]")
          elif txt:
              lines.append(txt)
      txt_file = base / f"{base.name}.txt"
      txt_file.write_text("\n\n".join(lines), encoding="utf-8")
      return txt_file
  \<close>
  The loop state is \<open>lines\<close>, \<open>ti\<close> and \<open>pi\<close>; \<open>txt_step\<close> is the loop body. No
  exception is handled: one raised by a table export leaves the loop, and the function,
  at once, before anything is written.
\<close>

type_synonym txt_state = "string list \<times> nat \<times> nat"

definition txt_step :: "engine \<Rightarrow> string \<Rightarrow> string list \<Rightarrow> txt_state \<Rightarrow> element \<Rightarrow> error + txt_state" where
  "txt_step env base_name imgs st el =
     (case st of (lines, ti, pi) \<Rightarrow>
        (let lvl = level_attr el;
             txt = strip (text_attr el)
         in if lvl \<noteq> None \<and> txt \<noteq> [] then
              Inr (lines @ [replicate (nat (the lvl)) (CHR ''#'') @ '' '' @ txt], ti, pi)
            else
              (case table_of el of
                 Some t \<Rightarrow>
                   (case export_to_dataframe t of
                      Inl msg \<Rightarrow> Inl (ExportRaised msg)
                    | Inr df \<Rightarrow>
                        Inr (lines @ [''[Table '' @ str_nat (ti + 1) @ '']'', to_string env df],
                             ti + 1, pi))
               | None \<Rightarrow>
                   (if is_picture_item el then
                      (let fn = (if pi < length imgs then imgs ! pi
                                 else base_name @ ''_img_'' @ str_nat (pi + 1) @ ''.png'')
                       in Inr (lines @ [''[Image: '' @ fn @ '']''], ti, pi + 1))
                    else if txt \<noteq> [] then
                      Inr (lines @ [txt], ti, pi)
                    else Inr st))))"

fun txt_loop :: "engine \<Rightarrow> string \<Rightarrow> string list \<Rightarrow> txt_state \<Rightarrow> element list \<Rightarrow> error + txt_state" where
  "txt_loop env base_name imgs st [] = Inr st"
| "txt_loop env base_name imgs st (el # els) =
     (case txt_step env base_name imgs st el of
        Inl e \<Rightarrow> Inl e
      | Inr st' \<Rightarrow> txt_loop env base_name imgs st' els)"

definition txt_lines :: "engine \<Rightarrow> string \<Rightarrow> string list \<Rightarrow> element list \<Rightarrow> error + string list" where
  \<comment> \<open>the list \<open>lines\<close> when the loop of \<open>generate_txt\<close> is left\<close>
  "txt_lines env base_name imgs els =
     (case txt_loop env base_name imgs ([], 0, 0) els of
        Inl e \<Rightarrow> Inl e
      | Inr (lines, ti, pi) \<Rightarrow> Inr lines)"

definition txt_content :: "engine \<Rightarrow> string \<Rightarrow> string list \<Rightarrow> element list \<Rightarrow> error + string" where
  \<comment> \<open>the text \<open>generate_txt\<close> writes: \<open>"\n\n".join(lines)\<close>\<close>
  "txt_content env base_name imgs els =
     (case txt_lines env base_name imgs els of
        Inl e \<Rightarrow> Inl e
      | Inr lines \<Rightarrow> Inr (join ''\<newline>\<newline>'' lines))"

definition txt_file :: "path \<Rightarrow> path" where
  \<comment> \<open>\<open>base / f"{base.name}.txt"\<close>\<close>
  "txt_file base = joinpath base (path_name base @ ''.txt'')"

definition generate_txt :: "engine \<Rightarrow> conv_result \<Rightarrow> path \<Rightarrow> filesystem \<Rightarrow> error + filesystem" where
  "generate_txt env res base fs =
     (case txt_content env (path_name base) (glob_png fs base) (items (doc res)) of
        Inl e \<Rightarrow> Inl e
      | Inr lines_joined \<Rightarrow> write_text (txt_file base) lines_joined fs)"

section \<open>The table files: \<open>export_tables\<close>\<close>

text \<open>
  \<^verbatim>\<open>
  def export_tables(doc, base: Path, extract_tables: bool):
      paths = []
      if extract_tables and hasattr(doc, "tables"):
          for i, tbl in enumerate(doc.tables, start=1):
              df = tbl.export_to_dataframe()
              p  = base / f"{base.name}_table_{i}.csv"
              df.to_csv(p, index=False)
              paths.append(p)
      return paths
  \<close>
  A document always has the attribute \<open>tables\<close>. The accumulator of \<open>tables_loop\<close> is
  \<open>paths\<close> and the files.
\<close>

definition table_csv :: "path \<Rightarrow> nat \<Rightarrow> path" where
  \<comment> \<open>\<open>base / f"{base.name}_table_{i}.csv"\<close>\<close>
  "table_csv base i = joinpath base (path_name base @ ''_table_'' @ str_nat i @ ''.csv'')"

fun tables_loop :: "engine \<Rightarrow> path \<Rightarrow> nat \<Rightarrow> table list \<Rightarrow> path list \<times> filesystem \<Rightarrow>
    error + path list \<times> filesystem" where
  "tables_loop env base i [] acc = Inr acc"
| "tables_loop env base i (tbl # tbls) acc =
     (case export_to_dataframe tbl of
        Inl msg \<Rightarrow> Inl (ExportRaised msg)
      | Inr df \<Rightarrow>
          (let p = table_csv base i
           in (case write_text p (to_csv env df) (snd acc) of
                 Inl e \<Rightarrow> Inl e
               | Inr fs' \<Rightarrow> tables_loop env base (i + 1) tbls (fst acc @ [p], fs'))))"

definition export_tables :: "engine \<Rightarrow> document \<Rightarrow> path \<Rightarrow> bool \<Rightarrow> filesystem \<Rightarrow>
    error + path list \<times> filesystem" where
  "export_tables env d base extract_tables fs =
     (if extract_tables then tables_loop env base 1 (tables d) ([], fs) else Inr ([], fs))"

section \<open>The batch loop of \<open>main\<close>\<close>

text \<open>
  \<^verbatim>\<open>
  out_root  = cfg.OUTPUT_DIR          # Path("artifacts")
  out_root.mkdir(exist_ok=True)
  ...
  for idx, f in enumerate(st.session_state.files, start=1):
      ext  = Path(f.name).suffix.lower().lstrip(".")
      base = out_root / Path(f.name).stem
      base.mkdir(exist_ok=True)
      if ext == "xlsx":
          if extract_tables:
              sheets = pd.read_excel(io.BytesIO(f.read()), sheet_name=None)
              for sh, df in sheets.items():
                  pfx = f"{base.name}_{sh}"
                  (base/f"{pfx}.csv").write_text(df.to_csv(index=False), encoding="utf-8")
                  (base/f"{pfx}.md" ).write_text(df.to_markdown(index=False), encoding="utf-8")
                  (base/f"{pfx}.html").write_text(df.to_html(index=False), encoding="utf-8")
                  (base/f"{pfx}.txt").write_text(df.to_string(index=False), encoding="utf-8")
          progress.progress(idx/total)
          continue
      if ext == "pdf":
          ...
          try:
              gen = converter.convert_all([tmp.name], ..., raises_on_error=False)
              res = next(gen)
          finally:
              os.unlink(tmp.name)
      else:
          src = DocumentStream(name=f.name, stream=io.BytesIO(f.read()))
          gen = converter.convert_all([src], ..., raises_on_error=False)
          res = next(gen)
      md_p   = base / f"{base.name}.md"
      html_p = base / f"{base.name}.html"
      json_p = base / f"{base.name}.json"
      res.document.save_as_markdown(md_p,   image_mode=ImageRefMode.REFERENCED)
      res.document.save_as_html(    html_p, image_mode=ImageRefMode.REFERENCED)
      json_p.write_text(json.dumps(res.document.export_to_dict(), ensure_ascii=False), encoding="utf-8")
      generate_txt(res, base)
      export_tables(res.document, base, extract_tables)
      results.append(res)
      progress.progress(idx/total)
  \<close>
  The loop has no \<open>except\<close> clause and never reads \<open>res.status\<close>. The state of the
  loop is the files and \<open>results\<close>; the progress display is left out. The working
  directory \<open>base\<close> is \<open>out_root / stem\<close>: for the stem \<open>.\<close> (a file named \<open>..md\<close>) this is
  the output root itself, whose name is \<open>artifacts\<close>, and for the stem \<open>..\<close> (a file
  named \<open>...pdf\<close>) it is the directory above the output root.
\<close>

definition out_root :: path where
  "out_root = Path ''artifacts''"

fun write_all :: "path \<Rightarrow> (string \<times> string) list \<Rightarrow> filesystem \<Rightarrow> error + filesystem" where
  \<comment> \<open>save named files into the directory at a location, one after the other\<close>
  "write_all q [] fs = Inr fs"
| "write_all q (file # files) fs =
     (case write_at (q @ [fst file]) (snd file) fs of
        Inl e \<Rightarrow> Inl e
      | Inr fs' \<Rightarrow> write_all q files fs')"

definition save_as :: "export \<Rightarrow> path \<Rightarrow> filesystem \<Rightarrow> error + filesystem" where
  \<comment> \<open>the effect of \<open>save_as_markdown(p, image_mode=ImageRefMode.REFERENCED)\<close> and of
      \<open>save_as_html\<close>: the directory beside \<open>p\<close> is made, the pictures are saved in it,
      then the text is written to \<open>p\<close>\<close>
  "save_as ex p fs =
     (case saved ex of
        None \<Rightarrow> write_text p (content ex) fs
      | Some (dir_name, pictures) \<Rightarrow>
          (case resolve fs (parent p) of
             None \<Rightarrow> Inl (OSError p)
           | Some q \<Rightarrow>
               (case mkdir_at (q @ [dir_name]) fs of
                  Inl e \<Rightarrow> Inl e
                | Inr fs1 \<Rightarrow>
                    (case write_all (q @ [dir_name]) pictures fs1 of
                       Inl e \<Rightarrow> Inl e
                     | Inr fs2 \<Rightarrow> write_text p (content ex) fs2))))"

definition write_sheet :: "engine \<Rightarrow> path \<Rightarrow> string \<times> dataframe \<Rightarrow> filesystem \<Rightarrow> error + filesystem" where
  \<comment> \<open>the body of \<open>for sh, df in sheets.items()\<close>\<close>
  "write_sheet env base sheet fs =
     (case sheet of (sh, df) \<Rightarrow>
        (let pfx = path_name base @ ''_'' @ sh
         in (case write_text (joinpath base (pfx @ ''.csv'')) (to_csv env df) fs of
               Inl e \<Rightarrow> Inl e
             | Inr fs1 \<Rightarrow>
                 (case write_text (joinpath base (pfx @ ''.md'')) (to_markdown env df) fs1 of
                    Inl e \<Rightarrow> Inl e
                  | Inr fs2 \<Rightarrow>
                      (case write_text (joinpath base (pfx @ ''.html'')) (to_html env df) fs2 of
                         Inl e \<Rightarrow> Inl e
                       | Inr fs3 \<Rightarrow>
                           write_text (joinpath base (pfx @ ''.txt'')) (to_string env df) fs3)))))"

fun sheets_loop :: "engine \<Rightarrow> path \<Rightarrow> (string \<times> dataframe) list \<Rightarrow> filesystem \<Rightarrow> error + filesystem" where
  "sheets_loop env base [] fs = Inr fs"
| "sheets_loop env base (sheet # sheets) fs =
     (case write_sheet env base sheet fs of
        Inl e \<Rightarrow> Inl e
      | Inr fs' \<Rightarrow> sheets_loop env base sheets fs')"

definition export_outputs :: "engine \<Rightarrow> conv_result \<Rightarrow> path \<Rightarrow> bool \<Rightarrow> filesystem \<Rightarrow> error + filesystem" where
  \<comment> \<open>the part of the loop body under "Export outputs"\<close>
  "export_outputs env res base extract_tables fs =
     (let md_p = joinpath base (path_name base @ ''.md'');
          html_p = joinpath base (path_name base @ ''.html'');
          json_p = joinpath base (path_name base @ ''.json'')
      in (case save_as (save_as_markdown env (doc res) (path_name md_p)) md_p fs of
            Inl e \<Rightarrow> Inl e
          | Inr fs1 \<Rightarrow>
              (case save_as (save_as_html env (doc res) (path_name html_p)) html_p fs1 of
                 Inl e \<Rightarrow> Inl e
               | Inr fs2 \<Rightarrow>
                   (case write_text json_p (export_to_json env (doc res)) fs2 of
                      Inl e \<Rightarrow> Inl e
                    | Inr fs3 \<Rightarrow>
                        (case generate_txt env res base fs3 of
                           Inl e \<Rightarrow> Inl e
                         | Inr fs4 \<Rightarrow>
                             (case export_tables env (doc res) base extract_tables fs4 of
                                Inl e \<Rightarrow> Inl e
                              | Inr (paths, fs5) \<Rightarrow> Inr fs5))))))"

type_synonym batch_state = "filesystem \<times> conv_result list"

definition process_file :: "engine \<Rightarrow> bool \<Rightarrow> batch_state \<Rightarrow> upload \<Rightarrow> error + batch_state" where
  \<comment> \<open>one iteration of \<open>for idx, f in enumerate(st.session_state.files, start=1)\<close>; the
      PDF branch and the in-memory branch hand the same bytes to the same converter\<close>
  "process_file env extract_tables st f =
     (case st of (fs, results) \<Rightarrow>
        (let ext = lstrip_dot (lower (suffix (Path (name f))));
             base = joinpath out_root (stem (Path (name f)))
         in (case mkdir base fs of
               Inl e \<Rightarrow> Inl e
             | Inr fs0 \<Rightarrow>
                 (if ext = ''xlsx'' then
                    (if extract_tables then
                       (case read_excel env (data f) of
                          Inl msg \<Rightarrow> Inl (ReadExcelRaised msg)
                        | Inr sheets \<Rightarrow>
                            (case sheets_loop env base sheets fs0 of
                               Inl e \<Rightarrow> Inl e
                             | Inr fs1 \<Rightarrow> Inr (fs1, results)))
                     else Inr (fs0, results))
                  else
                    (case convert_all env f of
                       Inl msg \<Rightarrow> Inl (ConvertRaised msg)
                     | Inr res \<Rightarrow>
                         (case export_outputs env res base extract_tables fs0 of
                            Inl e \<Rightarrow> Inl e
                          | Inr fs5 \<Rightarrow> Inr (fs5, results @ [res])))))))"

fun main_loop :: "engine \<Rightarrow> bool \<Rightarrow> batch_state \<Rightarrow> upload list \<Rightarrow> error + batch_state" where
  "main_loop env extract_tables st [] = Inr st"
| "main_loop env extract_tables st (f # fs) =
     (case process_file env extract_tables st f of
        Inl e \<Rightarrow> Inl e
      | Inr st' \<Rightarrow> main_loop env extract_tables st' fs)"

section \<open>The archive\<close>

text \<open>
  \<^verbatim>\<open>
  for d in out_root.iterdir():
      if not d.is_dir(): continue
      pref = d.name
      for p in d.iterdir():
          e = p.suffix.lower()
          if e == ".md":     arc=f"{pref}/md/{p.name}"
          elif e == ".html": arc=f"{pref}/html/{p.name}"
          elif e == ".json": arc=f"{pref}/json/{p.name}"
          elif e == ".txt":  arc=f"{pref}/txt/{p.name}"
          elif e == ".csv":  arc=f"{pref}/assets/tables/{p.name}"
          elif e in [".png", ".jpg", ".jpeg"]:
              arc=f"{pref}/assets/images/{p.name}"
          else:
              arc=f"{pref}/{p.name}"
          zf.write(p, arc)
  \<close>
  The inner loop has no \<open>is_file\<close> test: \<open>zf.write\<close> is called for every entry of \<open>d\<close>. For
  a regular file it adds a member with the file's bytes; for a directory it adds the
  member \<open>arc/\<close> without bytes, and nothing for the files inside. A member is kept as
  its name and its bytes. The entries the loops run over are locations of the store.
\<close>

definition arcname :: "string \<Rightarrow> path \<Rightarrow> string" where
  "arcname pref p =
     (let e = lower (suffix p)
      in if e = ''.md'' then pref @ ''/md/'' @ path_name p
         else if e = ''.html'' then pref @ ''/html/'' @ path_name p
         else if e = ''.json'' then pref @ ''/json/'' @ path_name p
         else if e = ''.txt'' then pref @ ''/txt/'' @ path_name p
         else if e = ''.csv'' then pref @ ''/assets/tables/'' @ path_name p
         else if e \<in> set [''.png'', ''.jpg'', ''.jpeg''] then pref @ ''/assets/images/'' @ path_name p
         else pref @ ''/'' @ path_name p)"

definition zf_write :: "filesystem \<Rightarrow> path \<Rightarrow> string \<Rightarrow> (string \<times> string) list" where
  \<comment> \<open>the member \<open>zf.write(p, arc)\<close> adds\<close>
  "zf_write fs p arc =
     (case map_of fs p of
        Some (RegFile c) \<Rightarrow> [(arc, c)]
      | Some Directory \<Rightarrow> [(arc @ ''/'', [])]
      | None \<Rightarrow> [])"

definition zip_dir :: "filesystem \<Rightarrow> path \<Rightarrow> (string \<times> string) list" where
  \<comment> \<open>the members one entry \<open>d\<close> of \<open>out_root.iterdir()\<close> adds: none unless it is a directory\<close>
  "zip_dir fs d =
     (if \<not> dir_at fs d then []
      else concat (map (\<lambda>p. zf_write fs p (arcname (path_name d) p)) (entries fs d)))"

definition build_zip :: "filesystem \<Rightarrow> (string \<times> string) list" where
  \<comment> \<open>the members of the ZIP archive, in the order written\<close>
  "build_zip fs = concat (map (zip_dir fs) (iterdir fs out_root))"

definition convert_all_files :: "engine \<Rightarrow> bool \<Rightarrow> filesystem \<Rightarrow> upload list \<Rightarrow>
    error + filesystem \<times> conv_result list \<times> (string \<times> string) list" where
  \<comment> \<open>the body of the "Convert All" button without the optional Parquet export: the
      output root is made, then the loop, then the archive; an exception ends the run
      before the archive\<close>
  "convert_all_files env extract_tables fs files =
     (case mkdir out_root fs of
        Inl e \<Rightarrow> Inl e
      | Inr fs0 \<Rightarrow>
          (case main_loop env extract_tables (fs0, []) files of
             Inl e \<Rightarrow> Inl e
           | Inr (fs', results) \<Rightarrow> Inr (fs', results, build_zip fs')))"

section \<open>Notions used to state the properties\<close>

definition stream_tables :: "element list \<Rightarrow> table list" where
  "stream_tables els = List.map_filter table_of els"

definition count_pictures :: "element list \<Rightarrow> nat" where
  "count_pictures els = length (filter is_picture_item els)"

definition exports_ok :: "element list \<Rightarrow> bool" where
  "exports_ok els = list_all (\<lambda>t. isl (export_to_dataframe t) = False) (stream_tables els)"

definition tables_ok :: "table list \<Rightarrow> bool" where
  "tables_ok tbls = list_all (\<lambda>t. isl (export_to_dataframe t) = False) tbls"

definition table_label :: "nat \<Rightarrow> string" where
  "table_label i = ''[Table '' @ str_nat i @ '']''"

definition image_label :: "string \<Rightarrow> string list \<Rightarrow> nat \<Rightarrow> string" where
  "image_label base_name imgs n =
     ''[Image: '' @ (if n \<le> length imgs then imgs ! (n - 1) else base_name @ ''_img_'' @ str_nat n @ ''.png'') @ '']''"

definition nat_of_str :: "string \<Rightarrow> nat" where
  \<comment> \<open>the number a string of decimal digits stands for\<close>
  "nat_of_str s = foldl (\<lambda>a c. 10 * a + (of_char c - 48)) 0 s"

definition wf_fs :: "filesystem \<Rightarrow> bool" where
  \<comment> \<open>the store names each location once\<close>
  "wf_fs fs = distinct (map fst fs)"

definition png_names :: "filesystem \<Rightarrow> path \<Rightarrow> string set" where
  \<comment> \<open>the set of names the pattern \<open>*.png\<close> matches in a directory\<close>
  "png_names fs base = set [n \<leftarrow> map path_name (iterdir fs base). endswith n ''.png'']"

definition read_text :: "filesystem \<Rightarrow> path \<Rightarrow> string option" where
  \<comment> \<open>the content of the regular file a path leads to, if it leads to one\<close>
  "read_text fs p =
     (case resolve fs p of
        None \<Rightarrow> None
      | Some q \<Rightarrow> (case map_of fs q of Some (RegFile c) \<Rightarrow> Some c | _ \<Rightarrow> None))"

definition can_write :: "filesystem \<Rightarrow> path \<Rightarrow> bool" where
  \<comment> \<open>a file can be written at the path: its directory is there and no directory stands
      in its place\<close>
  "can_write fs p =
     (case resolve fs p of
        None \<Rightarrow> False
      | Some q \<Rightarrow> \<not> dir_at fs q \<and> dir_at fs (butlast q))"

definition under :: "path \<Rightarrow> path \<Rightarrow> bool" where
  \<comment> \<open>location \<open>k\<close> is \<open>d\<close> or lies below it\<close>
  "under d k = (take (length d) k = d)"

definition changes_within :: "(path \<Rightarrow> bool) \<Rightarrow> filesystem \<Rightarrow> filesystem \<Rightarrow> bool" where
  \<comment> \<open>\<open>fs'\<close> comes from \<open>fs\<close> by making or changing entries at locations in \<open>P\<close> only\<close>
  "changes_within P fs fs' =
     ((\<exists>new. map fst fs' = map fst fs @ new \<and> list_all P new) \<and>
      (\<forall>k. P k \<or> map_of fs' k = map_of fs k))"

definition is_xlsx :: "upload \<Rightarrow> bool" where
  \<comment> \<open>the test \<open>ext == "xlsx"\<close> of the loop\<close>
  "is_xlsx f = (lstrip_dot (lower (suffix (Path (name f)))) = ''xlsx'')"

definition ordinary :: "string \<Rightarrow> bool" where
  \<comment> \<open>a stem for which \<open>out_root / stem\<close> is a directory of its own below the output root\<close>
  "ordinary s = (s \<noteq> [] \<and> s \<noteq> ''.'' \<and> s \<noteq> ''..'')"

definition sheet_files :: "engine \<Rightarrow> string \<Rightarrow> string \<times> dataframe \<Rightarrow> (string \<times> string) list" where
  \<comment> \<open>the tabular artifact group of one sheet, keyed \<open><base.name>_<sheet-name>\<close>: file
      names and contents\<close>
  "sheet_files env base_name sheet =
     [(base_name @ ''_'' @ fst sheet @ ''.csv'', to_csv env (snd sheet)),
      (base_name @ ''_'' @ fst sheet @ ''.md'', to_markdown env (snd sheet)),
      (base_name @ ''_'' @ fst sheet @ ''.html'', to_html env (snd sheet)),
      (base_name @ ''_'' @ fst sheet @ ''.txt'', to_string env (snd sheet))]"

fun write_texts :: "(path \<times> string) list \<Rightarrow> filesystem \<Rightarrow> error + filesystem" where
  \<comment> \<open>files written one after the other with \<open>write_text\<close>, as the loop over the sheets
      does\<close>
  "write_texts [] fs = Inr fs"
| "write_texts (w # ws) fs =
     (case write_text (fst w) (snd w) fs of
        Inl e \<Rightarrow> Inl e
      | Inr fs' \<Rightarrow> write_texts ws fs')"

definition sheet_endings :: "string \<Rightarrow> string list" where
  \<comment> \<open>what follows \<open>base.name\<close> in the names of the four files of a sheet\<close>
  "sheet_endings sh = [''_'' @ sh @ ''.csv'', ''_'' @ sh @ ''.md'', ''_'' @ sh @ ''.html'', ''_'' @ sh @ ''.txt'']"

definition sheet_writes :: "engine \<Rightarrow> path \<Rightarrow> (string \<times> dataframe) list \<Rightarrow> (path \<times> string) list" where
  \<comment> \<open>the files the loop over the sheets writes, in its order: path and content\<close>
  "sheet_writes env base sheets =
     concat (map (\<lambda>s. map (\<lambda>nc. (joinpath base (fst nc), snd nc)) (sheet_files env (path_name base) s)) sheets)"

section \<open>The archive layout in terms of artifact kinds\<close>







section \<open>Concrete inputs\<close>

definition plain_grid :: "dataframe \<Rightarrow> string" where
  "plain_grid df = join ''\<newline>'' (map (join '' '') df)"

definition csv_grid :: "dataframe \<Rightarrow> string" where
  "csv_grid df = join ''\<newline>'' (map (join '','') df)"

definition demo_text :: "document \<Rightarrow> string" where
  "demo_text d = join '' '' (map text_attr (items d))"

definition demo_export :: "document \<Rightarrow> string \<Rightarrow> export" where
  \<comment> \<open>an exporter that saves one file per picture into \<open><file stem>_artifacts\<close>\<close>
  "demo_export d n =
     \<lparr>content = demo_text d,
      saved = Some (stem (Path n) @ ''_artifacts'',
                    map (\<lambda>i. (''image_'' @ str_nat i @ ''.png'', ''PNG''))
                        [0..<length (filter is_picture_item (items d))])\<rparr>"

definition spec_example_items :: "element list" where
  "spec_example_items =
     [Heading 1 ''Intro'', TextBlock ''hello'', Table (TableItem (Inr [[''a'', ''b''], [''1'', ''2'']])),
      Picture, TextBlock ''bye'']"

text \<open>
  A converter and a workbook reader for the concrete runs below. The converter answers
  by the bytes it is given: a failure result with an empty document for corrupt bytes,
  as with \<open>raises_on_error=False\<close>, and an exception for bytes it has no result for.
\<close>

definition demo_convert :: "upload \<Rightarrow> string + conv_result" where
  "demo_convert f =
     (if data f = ''corrupt'' then Inr \<lparr>status = Failure, doc = \<lparr>items = [], tables = []\<rparr>\<rparr>
      else if data f = ''intro'' then
        Inr \<lparr>status = Success,
             doc = \<lparr>items = spec_example_items,
                    tables = [TableItem (Inr [[''a'', ''b''], [''1'', ''2'']])]\<rparr>\<rparr>
      else if data f = ''memo'' then
        Inr \<lparr>status = Success, doc = \<lparr>items = [TextBlock ''memo''], tables = []\<rparr>\<rparr>
      else Inl ''no result'')"

definition demo_read_excel :: "string \<Rightarrow> string + (string \<times> dataframe) list" where
  "demo_read_excel bytes =
     (if bytes = ''two sheets'' then
        Inr [(''Sales'', [[''q'', ''n''], [''1'', ''7'']]), (''Costs'', [[''k''], [''3'']])]
      else Inl ''not a workbook'')"

definition demo_engine :: engine where
  "demo_engine = \<lparr>convert_all = demo_convert, read_excel = demo_read_excel,
     to_string = plain_grid, to_csv = csv_grid, to_markdown = plain_grid, to_html = plain_grid,
     save_as_markdown = demo_export, save_as_html = demo_export, export_to_json = demo_text\<rparr>"

definition root_fs :: filesystem where
  \<comment> \<open>the empty output root\<close>
  "root_fs = [([''artifacts''], Directory)]"

definition doc_dir :: path where
  "doc_dir = [''artifacts'', ''doc'']"

definition empty_doc_fs :: filesystem where
  \<comment> \<open>the output root with an empty working directory \<open>doc\<close>\<close>
  "empty_doc_fs = [([''artifacts''], Directory), ([''artifacts'', ''doc''], Directory)]"

definition spec_example_fs :: filesystem where
  \<comment> \<open>the working directory \<open>doc\<close> with the one image file \<open>doc_img_1.png\<close>\<close>
  "spec_example_fs =
     [([''artifacts''], Directory), ([''artifacts'', ''doc''], Directory),
      ([''artifacts'', ''doc'', ''doc_img_1.png''], RegFile ''PNG'')]"

definition relisted_fs :: filesystem where
  \<comment> \<open>another state of the files with the same image files for \<open>doc\<close>\<close>
  "relisted_fs =
     [([''artifacts''], Directory),
      ([''artifacts'', ''other''], Directory),
      ([''artifacts'', ''other'', ''other_img_1.png''], RegFile ''P''),
      ([''artifacts'', ''doc''], Directory),
      ([''artifacts'', ''doc'', ''doc.txt''], RegFile ''old''),
      ([''artifacts'', ''doc'', ''doc_img_1.png''], RegFile ''PNG''),
      ([''artifacts'', ''doc'', ''doc.md''], RegFile ''m'')]"


definition failing_table_items :: "element list" where
  "failing_table_items = [TextBlock ''before'', Table (TableItem (Inl ''boom'')), TextBlock ''after'']"

definition two_tables_doc :: document where
  \<comment> \<open>a document whose second table does not export\<close>
  "two_tables_doc =
     \<lparr>items = [Table (TableItem (Inr [[''x''], [''1'']])), TextBlock ''then'',
               Table (TableItem (Inl ''merged cells''))],
      tables = [TableItem (Inr [[''x''], [''1'']]), TableItem (Inl ''merged cells'')]\<rparr>"

definition three_tables_doc :: document where
  "three_tables_doc =
     \<lparr>items = [Table (TableItem (Inr [[''x''], [''1'']])), TextBlock ''then''] @
              Table (TableItem (Inr [[''y''], [''2'']])) # [Picture, Table (TableItem (Inr [[''z'']]))],
      tables = [TableItem (Inr [[''x''], [''1'']]), TableItem (Inr [[''y''], [''2'']]),
                TableItem (Inr [[''z'']])]\<rparr>"




definition workbook :: upload where
  "workbook = \<lparr>name = ''Book.XLSX'', data = ''two sheets''\<rparr>"

definition dotted_workbook :: upload where
  \<comment> \<open>a workbook whose file name has the stem \<open>.\<close>\<close>
  "dotted_workbook = \<lparr>name = ''..xlsx'', data = ''two sheets''\<rparr>"

definition corrupt_pdf :: upload where
  "corrupt_pdf = \<lparr>name = ''scan.pdf'', data = ''corrupt''\<rparr>"

definition memo_docx :: upload where
  "memo_docx = \<lparr>name = ''memo.docx'', data = ''memo''\<rparr>"

definition report_pdf :: upload where
  "report_pdf = \<lparr>name = ''report.pdf'', data = ''intro''\<rparr>"

definition report_docx :: upload where
  "report_docx = \<lparr>name = ''report.docx'', data = ''memo''\<rparr>"

definition broken_xlsx :: upload where
  "broken_xlsx = \<lparr>name = ''ledger.xlsx'', data = ''truncated''\<rparr>"

definition unreadable_pdf :: upload where
  \<comment> \<open>bytes for which the converter raises\<close>
  "unreadable_pdf = \<lparr>name = ''scan.pdf'', data = ''unreadable''\<rparr>"

definition report_result :: conv_result where
  "report_result =
     \<lparr>status = Success,
      doc = \<lparr>items = spec_example_items, tables = [TableItem (Inr [[''a'', ''b''], [''1'', ''2'']])]\<rparr>\<rparr>"

definition report_run_fs :: filesystem where
  \<comment> \<open>the files a run on \<open>report.pdf\<close> leaves when \<open>extract_tables\<close> is on\<close>
  "report_run_fs =
     [([''artifacts''], Directory),
      ([''artifacts'', ''report''], Directory),
      ([''artifacts'', ''report'', ''report_artifacts''], Directory),
      ([''artifacts'', ''report'', ''report_artifacts'', ''image_0.png''], RegFile ''PNG''),
      ([''artifacts'', ''report'', ''report.md''], RegFile ''Intro hello   bye''),
      ([''artifacts'', ''report'', ''report.html''], RegFile ''Intro hello   bye''),
      ([''artifacts'', ''report'', ''report.json''], RegFile ''Intro hello   bye''),
      ([''artifacts'', ''report'', ''report.txt''],
       RegFile ''# Intro\<newline>\<newline>hello\<newline>\<newline>[Table 1]\<newline>\<newline>a b\<newline>1 2\<newline>\<newline>[Image: report_img_1.png]\<newline>\<newline>bye''),
      ([''artifacts'', ''report'', ''report_table_1.csv''], RegFile ''a,b\<newline>1,2'')]"

section \<open>Properties of the annotated-text pass\<close>

lemma txt_step_Heading:
  "txt_step env b imgs (ls, ti, pi) (Heading l t) =
     Inr (if strip t \<noteq> [] then ls @ [replicate (nat l) (CHR ''#'') @ '' '' @ strip t] else ls, ti, pi)"
  by (simp add: txt_step_def)

lemma txt_step_TextBlock:
  "txt_step env b imgs (ls, ti, pi) (TextBlock t) =
     Inr (if strip t \<noteq> [] then ls @ [strip t] else ls, ti, pi)"
  by (simp add: txt_step_def strip_def)

lemma strip_Nil: "strip [] = []" by (simp add: strip_def)

lemma txt_step_Table:
  "txt_step env b imgs (ls, ti, pi) (Table t) =
     (case export_to_dataframe t of
        Inl msg \<Rightarrow> Inl (ExportRaised msg)
      | Inr df \<Rightarrow> Inr (ls @ [table_label (Suc ti), to_string env df], Suc ti, pi))"
  by (simp add: txt_step_def strip_Nil table_label_def split: sum.splits)

lemma txt_step_Picture:
  "txt_step env b imgs (ls, ti, pi) Picture = Inr (ls @ [image_label b imgs (Suc pi)], ti, Suc pi)"
  by (simp add: txt_step_def strip_Nil image_label_def Suc_le_eq)

lemmas txt_step_simps = txt_step_Heading txt_step_TextBlock txt_step_Table txt_step_Picture

lemma txt_loop_append:
  "txt_loop env b imgs st (xs @ ys) =
     (case txt_loop env b imgs st xs of Inl e \<Rightarrow> Inl e | Inr st' \<Rightarrow> txt_loop env b imgs st' ys)"
  by (induction xs arbitrary: st) (auto split: sum.splits)

lemma stream_tables_simps [simp]:
  "stream_tables [] = []"
  "stream_tables (Table t # els) = t # stream_tables els"
  "stream_tables (Heading l s # els) = stream_tables els"
  "stream_tables (TextBlock s # els) = stream_tables els"
  "stream_tables (Picture # els) = stream_tables els"
  by (simp_all add: stream_tables_def)

lemma stream_tables_append [simp]: "stream_tables (xs @ ys) = stream_tables xs @ stream_tables ys"
  by (induction xs) (auto simp: stream_tables_def split: option.splits)

lemma count_pictures_simps [simp]:
  "count_pictures [] = 0"
  "count_pictures (Picture # els) = Suc (count_pictures els)"
  "count_pictures (Table t # els) = count_pictures els"
  "count_pictures (Heading l s # els) = count_pictures els"
  "count_pictures (TextBlock s # els) = count_pictures els"
  by (simp_all add: count_pictures_def)

lemma count_pictures_append [simp]: "count_pictures (xs @ ys) = count_pictures xs + count_pictures ys"
  by (simp add: count_pictures_def)

lemma exports_ok_simps [simp]:
  "exports_ok [] = True"
  "exports_ok (Table t # els) = (\<not> isl (export_to_dataframe t) \<and> exports_ok els)"
  "exports_ok (Heading l s # els) = exports_ok els"
  "exports_ok (TextBlock s # els) = exports_ok els"
  "exports_ok (Picture # els) = exports_ok els"
  by (simp_all add: exports_ok_def)

lemma exports_ok_append [simp]: "exports_ok (xs @ ys) = (exports_ok xs \<and> exports_ok ys)"
  by (simp add: exports_ok_def)

text \<open>
  A pass over a stream whose tables all export completes, the counters advance by the
  numbers of tables and pictures, and the lines are only appended to.
\<close>

lemma txt_loop_ok:
  "exports_ok els \<Longrightarrow>
   \<exists>new. txt_loop env b imgs (ls, ti, pi) els =
     Inr (ls @ new, ti + length (stream_tables els), pi + count_pictures els)"
proof (induction els arbitrary: ls ti pi)
  case Nil
  then show ?case by simp
next
  case (Cons el els)
  show ?case
  proof (cases el)
    case (Heading l t)
    from Cons.prems Heading have ok: "exports_ok els" by simp
    from Cons.IH [OF ok, of "if strip t \<noteq> [] then ls @ [replicate (nat l) (CHR ''#'') @ '' '' @ strip t] else ls" ti pi]
    show ?thesis using Heading by (auto simp: txt_step_Heading)
  next
    case (TextBlock t)
    from Cons.prems TextBlock have ok: "exports_ok els" by simp
    from Cons.IH [OF ok, of "if strip t \<noteq> [] then ls @ [strip t] else ls" ti pi]
    show ?thesis using TextBlock by (auto simp: txt_step_TextBlock)
  next
    case (Table t)
    from Cons.prems Table have ok: "exports_ok els" and nl: "\<not> isl (export_to_dataframe t)" by simp_all
    then obtain df where df: "export_to_dataframe t = Inr df" by (cases "export_to_dataframe t") auto
    from Cons.IH [OF ok, of "ls @ [table_label (Suc ti), to_string env df]" "Suc ti" pi]
    show ?thesis using Table df by (auto simp: txt_step_Table)
  next
    case Picture
    from Cons.prems Picture have ok: "exports_ok els" by simp
    from Cons.IH [OF ok, of "ls @ [image_label b imgs (Suc pi)]" ti "Suc pi"]
    show ?thesis using Picture by (auto simp: txt_step_Picture)
  qed
qed

lemma txt_loop_Inr_exports_ok:
  "txt_loop env b imgs st els = Inr st' \<Longrightarrow> exports_ok els"
proof (induction els arbitrary: st)
  case Nil
  then show ?case by simp
next
  case (Cons el els)
  obtain ls ti pi where st: "st = (ls, ti, pi)" by (cases st) auto
  show ?case
    using Cons.prems Cons.IH st
    by (cases el) (auto simp: txt_step_simps split: sum.splits if_splits)
qed

lemma txt_loop_fails:
  "exports_ok pre \<Longrightarrow> export_to_dataframe t = Inl msg \<Longrightarrow>
   txt_loop env b imgs st (pre @ Table t # post) = Inl (ExportRaised msg)"
proof -
  assume ok: "exports_ok pre" and ex: "export_to_dataframe t = Inl msg"
  obtain ls ti pi where st: "st = (ls, ti, pi)" by (cases st) auto
  from txt_loop_ok [OF ok, of env b imgs ls ti pi] obtain new where
    "txt_loop env b imgs (ls, ti, pi) pre = Inr (ls @ new, ti + length (stream_tables pre), pi + count_pictures pre)"
    by blast
  then show ?thesis using st ex by (simp add: txt_loop_append txt_step_Table)
qed

lemma str_nat_small:
  "str_nat 0 = ''0''" "str_nat 1 = ''1''" "str_nat (Suc 0) = ''1''"
  "str_nat 2 = ''2''" "str_nat (Suc (Suc 0)) = ''2''" "str_nat 3 = ''3''"
  by code_simp+

lemma txt_lines_ok:
  "exports_ok els \<Longrightarrow> \<exists>ls. txt_lines env b imgs els = Inr ls"
  using txt_loop_ok [of els env b imgs "[]" 0 0] by (auto simp: txt_lines_def)

text \<open>
  Claim C2, as stated, at a stream with one failing table: the pass does not emit a
  label with an \<open><unavailable>\<close> marker and go on; the exception of the export leaves
  \<open>generate_txt\<close>, and no annotated text is written.
\<close>

theorem table_failure_counterexample:
  "generate_txt demo_engine \<lparr>status = Success, doc = \<lparr>items = failing_table_items, tables = []\<rparr>\<rparr>
     doc_dir empty_doc_fs = Inl (ExportRaised ''boom'')"
  by (simp add: generate_txt_def txt_content_def txt_lines_def failing_table_items_def txt_step_simps)

text \<open>
  Claim C2, amended: when the export of a Table element raises during the pass, and the
  tables before it exported, \<open>generate_txt\<close> raises that exception at this table: it
  emits neither a label nor a marker for it, does not visit the remaining elements and
  writes no annotated text.
\<close>

theorem table_failure_aborts_pass:
  assumes "items (doc res) = pre @ Table t # post"
    and "exports_ok pre"
    and "export_to_dataframe t = Inl msg"
  shows "generate_txt env res base fs = Inl (ExportRaised msg)"
  using assms by (simp add: generate_txt_def txt_content_def txt_lines_def txt_loop_fails)

theorem table_failure_aborts_pass_witness:
  "exports_ok [Heading 2 ''Results''] \<and>
   generate_txt demo_engine
     \<lparr>status = Success,
      doc = \<lparr>items = [Heading 2 ''Results''] @ Table (TableItem (Inl ''no grid'')) # [Picture], tables = []\<rparr>\<rparr>
     [''artifacts'', ''report''] [([''artifacts''], Directory), ([''artifacts'', ''report''], Directory)] =
     Inl (ExportRaised ''no grid'')"
  using table_failure_aborts_pass [of "\<lparr>status = Success,
      doc = \<lparr>items = [Heading 2 ''Results''] @ Table (TableItem (Inl ''no grid'')) # [Picture], tables = []\<rparr>\<rparr>"
      "[Heading 2 ''Results'']" "TableItem (Inl ''no grid'')" "[Picture]" "''no grid''" demo_engine
      "[''artifacts'', ''report'']" "[([''artifacts''], Directory), ([''artifacts'', ''report''], Directory)]"]
  by simp

lemma strip_example [simp]: "strip ''Intro'' = ''Intro''" "strip ''hello'' = ''hello''" "strip ''bye'' = ''bye''"
  by (simp_all add: strip_def is_space_def)

lemma txt_content_spec_example:
  "txt_content env ''doc'' [''doc_img_1.png''] spec_example_items =
     Inr (''# Intro\<newline>\<newline>hello\<newline>\<newline>[Table 1]\<newline>\<newline>'' @ to_string env [[''a'', ''b''], [''1'', ''2'']] @
          ''\<newline>\<newline>[Image: doc_img_1.png]\<newline>\<newline>bye'')"
  by (simp add: txt_content_def txt_lines_def spec_example_items_def txt_step_simps table_label_def
      image_label_def str_nat_small)

lemma glob_png_spec_example: "glob_png spec_example_fs doc_dir = [''doc_img_1.png'']"
  by (simp add: glob_png_def iterdir_def resolve_def entries_def spec_example_fs_def doc_dir_def
      path_name_def endswith_def)

text \<open>
  Claim C4, as stated, with the grid printed as in the claim: the text the program
  produces has a blank line between \<open>[Table 1]\<close> and the grid, so it differs from the
  text of the claim, which has a single newline there.
\<close>

theorem worked_example_counterexample:
  "txt_content demo_engine ''doc'' (glob_png spec_example_fs doc_dir) spec_example_items =
     Inr ''# Intro\<newline>\<newline>hello\<newline>\<newline>[Table 1]\<newline>\<newline>a b\<newline>1 2\<newline>\<newline>[Image: doc_img_1.png]\<newline>\<newline>bye'' \<and>
   txt_content demo_engine ''doc'' (glob_png spec_example_fs doc_dir) spec_example_items \<noteq>
     Inr ''# Intro\<newline>\<newline>hello\<newline>\<newline>[Table 1]\<newline>a b\<newline>1 2\<newline>\<newline>[Image: doc_img_1.png]\<newline>\<newline>bye''"
  by (simp add: glob_png_spec_example txt_content_spec_example demo_engine_def plain_grid_def)

lemma doc_dir_simps:
  "path_name doc_dir = ''doc''" "txt_file doc_dir = [''artifacts'', ''doc'', ''doc.txt'']"
  by (simp_all add: txt_file_def joinpath_def Path_def doc_dir_def path_name_def)

lemma write_text_spec_example:
  "write_text [''artifacts'', ''doc'', ''doc.txt''] c spec_example_fs =
     Inr (spec_example_fs @ [([''artifacts'', ''doc'', ''doc.txt''], RegFile c)])"
  by (simp add: write_text_def resolve_def write_at_def dir_at_def spec_example_fs_def)

text \<open>
  Claim C4, amended: for the document model of the worked example, with the one image
  file \<open>doc_img_1.png\<close> in the working directory and whatever text \<open>to_string\<close> prints
  for the rows of T1, the annotated text written to \<open>doc.txt\<close> is
  \<open># Intro\<close>, \<open>hello\<close>, \<open>[Table 1]\<close>, the grid, \<open>[Image: doc_img_1.png]\<close> and \<open>bye\<close>, every
  two neighbours separated by a blank line, the label and its grid included.
\<close>

theorem worked_example:
  "generate_txt env \<lparr>status = s, doc = \<lparr>items = spec_example_items, tables = tbls\<rparr>\<rparr> doc_dir spec_example_fs =
     Inr (spec_example_fs @
          [([''artifacts'', ''doc'', ''doc.txt''],
            RegFile (''# Intro\<newline>\<newline>hello\<newline>\<newline>[Table 1]\<newline>\<newline>'' @ to_string env [[''a'', ''b''], [''1'', ''2'']] @
                     ''\<newline>\<newline>[Image: doc_img_1.png]\<newline>\<newline>bye''))])"
  by (simp add: generate_txt_def glob_png_spec_example txt_content_spec_example doc_dir_simps
      write_text_spec_example)
section \<open>Properties of paths\<close>

lemma split_not_Nil [simp]: "split c s \<noteq> []"
  by (induction s) (auto split: list.splits)

lemma split_no_sep: "c \<notin> set s \<Longrightarrow> split c s = [s]"
  by (induction s) auto

lemma split_parts: "w \<in> set (split c s) \<Longrightarrow> c \<notin> set w"
  by (induction s arbitrary: w) (auto split: if_splits list.splits)

lemma split_append_ext:
  "c \<notin> set t \<Longrightarrow> split c (s @ t) = butlast (split c s) @ [last (split c s) @ t]"
proof (induction s)
  case Nil
  then show ?case by (simp add: split_no_sep)
next
  case (Cons x s)
  obtain w ws where sp: "split c s = w # ws" by (cases "split c s") simp_all
  show ?case
  proof (cases ws)
    case Nil
    with Cons sp show ?thesis by simp
  next
    case (Cons w' ws')
    with Cons.IH Cons.prems sp show ?thesis by simp
  qed
qed

lemma Path_plain: "CHR ''/'' \<notin> set n \<Longrightarrow> n \<noteq> [] \<Longrightarrow> n \<noteq> ''.'' \<Longrightarrow> Path n = [n]"
  by (simp add: Path_def split_no_sep)

lemma Path_parts: "c \<in> set (Path s) \<Longrightarrow> CHR ''/'' \<notin> set c \<and> c \<noteq> [] \<and> c \<noteq> ''.''"
  by (auto simp: Path_def dest: split_parts)

lemma Path_ext:
  obtains hs l where
    "\<And>t. CHR ''/'' \<notin> set t \<Longrightarrow> t \<noteq> [] \<Longrightarrow> last t \<noteq> CHR ''.'' \<Longrightarrow> Path (s @ t) = hs @ [l @ t]"
proof
  fix t :: string
  assume t: "CHR ''/'' \<notin> set t" "t \<noteq> []" "last t \<noteq> CHR ''.''"
  let ?l = "last (split (CHR ''/'') s)"
  from t have "?l @ t \<noteq> ''.''"
    by (metis last_appendR last.simps)
  with t show "Path (s @ t) = [c \<leftarrow> butlast (split (CHR ''/'') s). c \<noteq> [] \<and> c \<noteq> ''.''] @ [?l @ t]"
    by (simp add: Path_def split_append_ext)
qed

lemma locate_append:
  "locate fs cur (xs @ ys) = (case locate fs cur xs of None \<Rightarrow> None | Some q \<Rightarrow> locate fs q ys)"
  by (induction xs arbitrary: cur) auto

lemma locate_plain: "''..'' \<notin> set p \<Longrightarrow> locate fs cur p = Some (cur @ p)"
  by (induction p arbitrary: cur) auto

lemma resolve_plain: "''..'' \<notin> set p \<Longrightarrow> resolve fs p = Some p"
  by (simp add: resolve_def locate_plain)

lemma locate_cong:
  assumes "\<And>k. dir_at fs' k = dir_at fs k"
  shows "locate fs' cur p = locate fs cur p"
proof (induction p arbitrary: cur)
  case Nil
  show ?case by simp
next
  case (Cons c cs)
  show ?case by (simp add: Cons.IH assms)
qed

lemma resolve_cong: "(\<And>k. dir_at fs' k = dir_at fs k) \<Longrightarrow> resolve fs' p = resolve fs p"
  unfolding resolve_def by (rule locate_cong)

lemma resolve_snoc:
  "x \<noteq> ''..'' \<Longrightarrow> resolve fs (p @ [x]) = map_option (\<lambda>r. r @ [x]) (resolve fs p)"
  by (simp add: resolve_def locate_append split: option.splits)

text \<open>
  Where a file named after the directory lies: the path \<open>base / f"{base.name}<t>"\<close> leads
  into one directory, the same for every ending \<open>t\<close>, and to the name \<open>l @ t\<close> there.
\<close>

lemma resolve_named_file:
  "\<exists>hs l. \<forall>fs t. CHR ''/'' \<notin> set t \<and> t \<noteq> [] \<and> last t \<noteq> CHR ''.'' \<longrightarrow>
       resolve fs (joinpath base (path_name base @ t)) =
         map_option (\<lambda>r. r @ [l @ t]) (resolve fs (base @ hs))"
proof -
  obtain hs l where
    P: "\<And>t. CHR ''/'' \<notin> set t \<Longrightarrow> t \<noteq> [] \<Longrightarrow> last t \<noteq> CHR ''.'' \<Longrightarrow> Path (path_name base @ t) = hs @ [l @ t]"
    using Path_ext [of "path_name base"] by blast
  have "resolve fs (joinpath base (path_name base @ t)) =
         map_option (\<lambda>r. r @ [l @ t]) (resolve fs (base @ hs))"
    if t: "CHR ''/'' \<notin> set t" "t \<noteq> []" "last t \<noteq> CHR ''.''" for fs t
  proof -
    from t have "l @ t \<noteq> ''..''" by (metis last_appendR last.simps)
    then show ?thesis
      using P [OF t] resolve_snoc [of "l @ t" fs "base @ hs"] by (simp add: joinpath_def)
  qed
  then show ?thesis by blast
qed

section \<open>Properties of the files\<close>

lemma write_at_Inr:
  "write_at q c fs = Inr fs' \<longleftrightarrow>
     \<not> dir_at fs q \<and> dir_at fs (butlast q) \<and> fs' = AList.update q (RegFile c) fs"
  by (auto simp: write_at_def)

lemma dir_at_update_file:
  "\<not> dir_at fs q \<Longrightarrow> dir_at (AList.update q (RegFile c) fs) k = dir_at fs k"
  by (auto simp: dir_at_def update_conv')

lemma write_at_dir_at: "write_at q c fs = Inr fs' \<Longrightarrow> dir_at fs' k = dir_at fs k"
  by (auto simp: write_at_Inr dir_at_update_file)

lemma write_at_resolve: "write_at q c fs = Inr fs' \<Longrightarrow> resolve fs' p = resolve fs p"
  by (rule resolve_cong) (rule write_at_dir_at)

lemma write_at_map_of:
  "write_at q c fs = Inr fs' \<Longrightarrow> map_of fs' k = (if k = q then Some (RegFile c) else map_of fs k)"
  by (auto simp: write_at_Inr update_conv')

lemma write_at_keys:
  "write_at q c fs = Inr fs' \<Longrightarrow>
   map fst fs' = (if q \<in> set (map fst fs) then map fst fs else map fst fs @ [q])"
  by (auto simp: write_at_Inr update_keys)

lemma write_at_wf: "write_at q c fs = Inr fs' \<Longrightarrow> wf_fs fs \<Longrightarrow> wf_fs fs'"
  by (auto simp: write_at_Inr wf_fs_def distinct_update)

lemma write_at_again: "write_at q c fs = Inr fs' \<Longrightarrow> write_at q c fs' = Inr fs'"
  by (auto simp: write_at_Inr dir_at_update_file)

lemma write_text_Inr:
  "write_text p c fs = Inr fs' \<longleftrightarrow> (\<exists>q. resolve fs p = Some q \<and> write_at q c fs = Inr fs')"
  by (auto simp: write_text_def split: option.splits)

lemma mkdir_at_cases:
  assumes "mkdir_at q fs = Inr fs'"
  shows "(dir_at fs q \<and> fs' = fs) \<or>
         (\<not> dir_at fs q \<and> map_of fs q = None \<and> dir_at fs (butlast q) \<and> fs' = fs @ [(q, Directory)])"
  using assms by (auto simp: mkdir_at_def split: if_splits)

lemma entries_append: "entries (fs @ fs') q = entries fs q @ entries fs' q"
  by (simp add: entries_def)

lemma path_name_entries_inj: "inj_on path_name (set (entries fs q))"
proof (rule inj_onI)
  fix k k' assume "k \<in> set (entries fs q)" "k' \<in> set (entries fs q)" "path_name k = path_name k'"
  then have "k \<noteq> []" "k' \<noteq> []" "butlast k = butlast k'" "last k = last k'"
    by (auto simp: entries_def path_name_def)
  then show "k = k'" by (metis append_butlast_last_id)
qed

lemma distinct_entry_names: "wf_fs fs \<Longrightarrow> distinct (map path_name (entries fs q))"
  using path_name_entries_inj [of fs q]
  by (simp add: distinct_map wf_fs_def entries_def)

lemma glob_png_names:
  assumes "wf_fs fs1" and "wf_fs fs2" and "png_names fs1 d = png_names fs2 d"
  shows "glob_png fs1 d = glob_png fs2 d"
proof -
  let ?l1 = "[n \<leftarrow> map path_name (iterdir fs1 d). endswith n ''.png'']"
  let ?l2 = "[n \<leftarrow> map path_name (iterdir fs2 d). endswith n ''.png'']"
  have "distinct ?l1" "distinct ?l2"
    using assms(1,2) by (auto simp: iterdir_def distinct_entry_names split: option.splits)
  moreover have "set ?l1 = set ?l2"
    using assms(3) by (simp add: png_names_def)
  ultimately have "sort ?l1 = sort ?l2"
    by (intro sorted_distinct_set_unique) simp_all
  then show ?thesis by (simp add: glob_png_def)
qed

lemma not_png [simp]:
  "\<not> endswith (x @ ''.txt'') ''.png''" "\<not> endswith (x @ ''.md'') ''.png''"
  "\<not> endswith (x @ ''.html'') ''.png''" "\<not> endswith (x @ ''.json'') ''.png''"
  "\<not> endswith (x @ ''.csv'') ''.png''"
  by (simp_all add: endswith_def)

lemma glob_png_write_at:
  assumes w: "write_at q c fs = Inr fs'" and n: "q \<noteq> []" "\<not> endswith (last q) ''.png''"
  shows "glob_png fs' d = glob_png fs d"
proof -
  have "[n \<leftarrow> map path_name (entries fs' r). endswith n ''.png''] =
        [n \<leftarrow> map path_name (entries fs r). endswith n ''.png'']" for r
    using write_at_keys [OF w] n by (auto simp: entries_def path_name_def)
  then show ?thesis
    by (simp add: glob_png_def iterdir_def write_at_resolve [OF w] split: option.splits)
qed

lemma generate_txt_Inr:
  assumes "generate_txt env res base fs = Inr fs'"
  shows "\<exists>lines_joined q. txt_content env (path_name base) (glob_png fs base) (items (doc res)) = Inr lines_joined \<and>
          resolve fs (txt_file base) = Some q \<and> write_at q lines_joined fs = Inr fs'"
  using assms by (auto simp: generate_txt_def write_text_Inr split: sum.splits)

lemma txt_file_location:
  "resolve fs (txt_file base) = Some q \<Longrightarrow> q \<noteq> [] \<and> \<not> endswith (last q) ''.png''"
proof -
  assume r: "resolve fs (txt_file base) = Some q"
  from resolve_named_file [of base] obtain hs l where
    "\<forall>fs t. CHR ''/'' \<notin> set t \<and> t \<noteq> [] \<and> last t \<noteq> CHR ''.'' \<longrightarrow>
       resolve fs (joinpath base (path_name base @ t)) =
         map_option (\<lambda>r. r @ [l @ t]) (resolve fs (base @ hs))"
    by blast
  then have "resolve fs (joinpath base (path_name base @ ''.txt'')) =
         map_option (\<lambda>r. r @ [l @ ''.txt'']) (resolve fs (base @ hs))"
    by simp
  with r obtain r' where "q = r' @ [l @ ''.txt'']"
    by (auto simp: txt_file_def)
  then show ?thesis by simp
qed

text \<open>
  Claim C9: the annotated text is a function of the element stream and of the set of
  names the pattern \<open>*.png\<close> matches in the working directory: two states of the files
  with the same such names give the same text (or the same exception), whatever else
  they hold and in whatever order a directory is listed; and running \<open>generate_txt\<close>
  again on the state the first run left writes the identical file.
\<close>

theorem reconciler_deterministic:
  assumes "wf_fs fs1" and "wf_fs fs2" and "png_names fs1 base = png_names fs2 base"
  shows "txt_content env (path_name base) (glob_png fs1 base) (items (doc res)) =
           txt_content env (path_name base) (glob_png fs2 base) (items (doc res)) \<and>
         (\<forall>fs1'. generate_txt env res base fs1 = Inr fs1' \<longrightarrow>
                 generate_txt env res base fs1' = Inr fs1')"
proof -
  have "generate_txt env res base fs1' = Inr fs1'"
    if "generate_txt env res base fs1 = Inr fs1'" for fs1'
  proof -
    from generate_txt_Inr [OF that] obtain lines_joined q where
      t: "txt_content env (path_name base) (glob_png fs1 base) (items (doc res)) = Inr lines_joined" and
      r: "resolve fs1 (txt_file base) = Some q" and
      w: "write_at q lines_joined fs1 = Inr fs1'" by blast
    from txt_file_location [OF r] have "glob_png fs1' base = glob_png fs1 base"
      using glob_png_write_at [OF w] by simp
    with t r w show ?thesis
      by (simp add: generate_txt_def write_text_def write_at_resolve [OF w] write_at_again)
  qed
  with glob_png_names [OF assms] show ?thesis by simp
qed

theorem reconciler_deterministic_witness:
  "wf_fs spec_example_fs \<and> wf_fs relisted_fs \<and>
   png_names spec_example_fs doc_dir = png_names relisted_fs doc_dir \<and>
   txt_content demo_engine (path_name doc_dir) (glob_png spec_example_fs doc_dir) spec_example_items =
     txt_content demo_engine (path_name doc_dir) (glob_png relisted_fs doc_dir) spec_example_items \<and>
   generate_txt demo_engine \<lparr>status = Success, doc = \<lparr>items = spec_example_items, tables = []\<rparr>\<rparr> doc_dir
     (spec_example_fs @
      [([''artifacts'', ''doc'', ''doc.txt''],
        RegFile ''# Intro\<newline>\<newline>hello\<newline>\<newline>[Table 1]\<newline>\<newline>a b\<newline>1 2\<newline>\<newline>[Image: doc_img_1.png]\<newline>\<newline>bye'')]) =
     Inr (spec_example_fs @
      [([''artifacts'', ''doc'', ''doc.txt''],
        RegFile ''# Intro\<newline>\<newline>hello\<newline>\<newline>[Table 1]\<newline>\<newline>a b\<newline>1 2\<newline>\<newline>[Image: doc_img_1.png]\<newline>\<newline>bye'')])"
proof -
  let ?res = "\<lparr>status = Success, doc = \<lparr>items = spec_example_items, tables = []\<rparr>\<rparr>"
  have w1: "wf_fs spec_example_fs" by (simp add: wf_fs_def spec_example_fs_def)
  have w2: "wf_fs relisted_fs" by (simp add: wf_fs_def relisted_fs_def)
  have pn: "png_names spec_example_fs doc_dir = png_names relisted_fs doc_dir"
    by (simp add: png_names_def iterdir_def resolve_def entries_def spec_example_fs_def relisted_fs_def
        doc_dir_def path_name_def endswith_def)
  have run: "generate_txt demo_engine ?res doc_dir spec_example_fs =
     Inr (spec_example_fs @
      [([''artifacts'', ''doc'', ''doc.txt''],
        RegFile ''# Intro\<newline>\<newline>hello\<newline>\<newline>[Table 1]\<newline>\<newline>a b\<newline>1 2\<newline>\<newline>[Image: doc_img_1.png]\<newline>\<newline>bye'')])"
    by (simp add: generate_txt_def glob_png_spec_example txt_content_spec_example doc_dir_simps
        write_text_spec_example demo_engine_def plain_grid_def)
  from reconciler_deterministic [OF w1 w2 pn, of demo_engine ?res] w1 w2 pn run
  show ?thesis by simp
qed

section \<open>Properties of the written text\<close>

lemma join_Cons: "join sep (x # r) = x @ (if r = [] then [] else sep @ join sep r)"
  by (cases r) simp_all

lemma join_append_Cons:
  "join sep (ls @ x # r) = concat (map (\<lambda>l. l @ sep) ls) @ join sep (x # r)"
proof (induction ls)
  case Nil
  show ?case by simp
next
  case (Cons l ls)
  obtain y ys where "ls @ x # r = y # ys" by (cases ls) simp_all
  with Cons show ?case by simp
qed


lemma join_two_blocks:
  "\<exists>sfx. join sep (ls1 @ [a, b] @ ls2) = concat (map (\<lambda>l. l @ sep) ls1) @ a @ sep @ b @ sfx"
  by (simp add: join_append_Cons join_Cons)

lemma can_write_write_text:
  assumes "can_write fs p"
  shows "\<exists>q fs'. resolve fs p = Some q \<and> write_text p c fs = Inr fs' \<and> write_at q c fs = Inr fs'"
  using assms by (auto simp: can_write_def write_text_def write_at_def split: option.splits)

lemma write_at_read_text:
  assumes w: "write_at q c fs = Inr fs'"
  shows "read_text fs' p = (if resolve fs p = Some q then Some c else read_text fs p)"
  by (auto simp: read_text_def write_at_resolve [OF w] write_at_map_of [OF w] split: option.splits)

lemma write_at_can_write: "write_at q c fs = Inr fs' \<Longrightarrow> can_write fs' p = can_write fs p"
  by (simp add: can_write_def write_at_resolve write_at_dir_at split: option.splits)

lemma generate_txt_ok:
  assumes ok: "exports_ok (items (doc res))" and w: "can_write fs (txt_file base)"
  shows "\<exists>ls q fs'.
           txt_lines env (path_name base) (glob_png fs base) (items (doc res)) = Inr ls \<and>
           resolve fs (txt_file base) = Some q \<and>
           write_at q (join ''\<newline>\<newline>'' ls) fs = Inr fs' \<and>
           generate_txt env res base fs = Inr fs'"
proof -
  from txt_lines_ok [OF ok, of env "path_name base" "glob_png fs base"] obtain ls where
    ls: "txt_lines env (path_name base) (glob_png fs base) (items (doc res)) = Inr ls" by blast
  from can_write_write_text [OF w, of "join ''\<newline>\<newline>'' ls"] obtain q fs' where
    "resolve fs (txt_file base) = Some q" "write_text (txt_file base) (join ''\<newline>\<newline>'' ls) fs = Inr fs'"
    "write_at q (join ''\<newline>\<newline>'' ls) fs = Inr fs'" by blast
  with ls show ?thesis by (auto simp: generate_txt_def txt_content_def)
qed




section \<open>Tables in the text, and table files\<close>

lemma txt_lines_table_split:
  assumes ok: "exports_ok (pre @ Table t # post)" and df: "export_to_dataframe t = Inr df"
  shows "\<exists>ls1 ls2 pi.
           txt_lines env b imgs pre = Inr ls1 \<and>
           txt_loop env b imgs ([], 0, 0) (pre @ Table t # post) =
             Inr (ls1 @ [table_label (Suc (length (stream_tables pre))), to_string env df] @ ls2,
                  length (stream_tables (pre @ Table t # post)), pi)"
proof -
  let ?i = "Suc (length (stream_tables pre))"
  from ok have ok1: "exports_ok pre" and ok2: "exports_ok post" by simp_all
  from txt_loop_ok [OF ok1, of env b imgs "[]" 0 0] obtain ls1 where
    l1: "txt_loop env b imgs ([], 0, 0) pre =
           Inr (ls1, length (stream_tables pre), count_pictures pre)" by auto
  from txt_loop_ok [OF ok2, of env b imgs "ls1 @ [table_label ?i, to_string env df]" ?i "count_pictures pre"]
  obtain ls2 where
    l2: "txt_loop env b imgs (ls1 @ [table_label ?i, to_string env df], ?i, count_pictures pre) post =
           Inr ((ls1 @ [table_label ?i, to_string env df]) @ ls2, ?i + length (stream_tables post),
                count_pictures pre + count_pictures post)" by auto
  have "txt_loop env b imgs ([], 0, 0) (pre @ Table t # post) =
      Inr (ls1 @ [table_label ?i, to_string env df] @ ls2, length (stream_tables (pre @ Table t # post)),
           count_pictures pre + count_pictures post)"
    using l1 l2 df by (simp add: txt_loop_append txt_step_Table)
  with l1 show ?thesis by (auto simp: txt_lines_def)
qed

lemma not_csv [simp]:
  "\<not> endswith (x @ ''.txt'') ''.csv''" "\<not> endswith (x @ ''.md'') ''.csv''"
  "\<not> endswith (x @ ''.html'') ''.csv''" "\<not> endswith (x @ ''.json'') ''.csv''"
  by (simp_all add: endswith_def)

lemma txt_file_not_csv:
  "resolve fs (txt_file base) = Some q \<Longrightarrow> \<not> endswith (path_name q) ''.csv''"
proof -
  assume r: "resolve fs (txt_file base) = Some q"
  from resolve_named_file [of base] obtain hs l where
    "\<forall>fs t. CHR ''/'' \<notin> set t \<and> t \<noteq> [] \<and> last t \<noteq> CHR ''.'' \<longrightarrow>
       resolve fs (joinpath base (path_name base @ t)) =
         map_option (\<lambda>r. r @ [l @ t]) (resolve fs (base @ hs))"
    by blast
  then have "resolve fs (joinpath base (path_name base @ ''.txt'')) =
         map_option (\<lambda>r. r @ [l @ ''.txt'']) (resolve fs (base @ hs))"
    by simp
  with r obtain r' where "q = r' @ [l @ ''.txt'']"
    by (auto simp: txt_file_def)
  then show ?thesis by (simp add: path_name_def)
qed

text \<open>
  Claim C10, as stated, at a run with \<open>extract_tables\<close> off on files that an earlier run
  with \<open>extract_tables\<close> on has left: the output root is never emptied, so the file
  \<open>report_table_1.csv\<close> of the earlier run exists after the run, beside the annotated
  text with its table grid, and it is archived.
\<close>

theorem stale_csv_counterexample:
  "convert_all_files demo_engine True [] [report_pdf] =
     Inr (report_run_fs, [report_result],
          [(''report/report_artifacts/'', []),
           (''report/md/report.md'', ''Intro hello   bye''),
           (''report/html/report.html'', ''Intro hello   bye''),
           (''report/json/report.json'', ''Intro hello   bye''),
           (''report/txt/report.txt'',
            ''# Intro\<newline>\<newline>hello\<newline>\<newline>[Table 1]\<newline>\<newline>a b\<newline>1 2\<newline>\<newline>[Image: report_img_1.png]\<newline>\<newline>bye''),
           (''report/assets/tables/report_table_1.csv'', ''a,b\<newline>1,2'')]) \<and>
   convert_all_files demo_engine False report_run_fs [report_pdf] =
     Inr (report_run_fs, [report_result],
          [(''report/report_artifacts/'', []),
           (''report/md/report.md'', ''Intro hello   bye''),
           (''report/html/report.html'', ''Intro hello   bye''),
           (''report/json/report.json'', ''Intro hello   bye''),
           (''report/txt/report.txt'',
            ''# Intro\<newline>\<newline>hello\<newline>\<newline>[Table 1]\<newline>\<newline>a b\<newline>1 2\<newline>\<newline>[Image: report_img_1.png]\<newline>\<newline>bye''),
           (''report/assets/tables/report_table_1.csv'', ''a,b\<newline>1,2'')]) \<and>
   read_text report_run_fs (table_csv [''artifacts'', ''report''] 1) = Some ''a,b\<newline>1,2''"
  by code_simp

text \<open>
  Claim C10, amended: \<open>generate_txt\<close> takes no \<open>extract_tables\<close> argument: for every
  Table element of a document whose tables export it writes the label and, after a blank
  line, the full grid into the annotated text, right after the blocks of the elements
  before the table; and with \<open>extract_tables\<close> off \<open>export_tables\<close> writes nothing. The two
  calls change the annotated-text file alone: every file named \<open>*.csv\<close>, the
  \<open><doc>_table_i.csv\<close> among them, is as it was before, absent if it was absent and
  still there if an earlier run left it.
\<close>

theorem tables_in_text_without_csv:
  assumes split: "items (doc res) = pre @ Table t # post"
    and ok: "exports_ok (items (doc res))"
    and df: "export_to_dataframe t = Inr df"
    and w: "can_write fs (txt_file base)"
  shows "\<exists>fs' q ls1 sfx.
           generate_txt env res base fs = Inr fs' \<and>
           export_tables env (doc res) base False fs' = Inr ([], fs') \<and>
           txt_lines env (path_name base) (glob_png fs base) pre = Inr ls1 \<and>
           read_text fs' (txt_file base) =
             Some (concat (map (\<lambda>l. l @ ''\<newline>\<newline>'') ls1) @
                   ''[Table '' @ str_nat (Suc (length (stream_tables pre))) @ '']'' @ ''\<newline>\<newline>'' @
                   to_string env df @ sfx) \<and>
           resolve fs (txt_file base) = Some q \<and>
           (\<forall>k. k \<noteq> q \<longrightarrow> map_of fs' k = map_of fs k) \<and>
           (\<forall>k. endswith (path_name k) ''.csv'' \<longrightarrow> map_of fs' k = map_of fs k)"
proof -
  let ?b = "path_name base" and ?imgs = "glob_png fs base"
  from generate_txt_ok [OF ok w, of env] obtain ls q fs' where
    ls: "txt_lines env ?b ?imgs (items (doc res)) = Inr ls" and
    q: "resolve fs (txt_file base) = Some q" and
    wr: "write_at q (join ''\<newline>\<newline>'' ls) fs = Inr fs'" and
    g: "generate_txt env res base fs = Inr fs'" by blast
  from ok split have ok': "exports_ok (pre @ Table t # post)" by simp
  from txt_lines_table_split [OF ok' df, of env ?b ?imgs] obtain ls1 ls2 where
    l1: "txt_lines env ?b ?imgs pre = Inr ls1" and
    "txt_lines env ?b ?imgs (pre @ Table t # post) =
       Inr (ls1 @ [table_label (Suc (length (stream_tables pre))), to_string env df] @ ls2)"
    by (auto simp: txt_lines_def)
  with ls split have "ls = ls1 @ [table_label (Suc (length (stream_tables pre))), to_string env df] @ ls2"
    by simp
  then obtain sfx where
    j: "join ''\<newline>\<newline>'' ls = concat (map (\<lambda>l. l @ ''\<newline>\<newline>'') ls1) @
          table_label (Suc (length (stream_tables pre))) @ ''\<newline>\<newline>'' @ to_string env df @ sfx"
    using join_two_blocks [of "''\<newline>\<newline>''" ls1 "table_label (Suc (length (stream_tables pre)))" "to_string env df" ls2]
    by auto
  have rd: "read_text fs' (txt_file base) =
      Some (concat (map (\<lambda>l. l @ ''\<newline>\<newline>'') ls1) @
            ''[Table '' @ str_nat (Suc (length (stream_tables pre))) @ '']'' @ ''\<newline>\<newline>'' @
            to_string env df @ sfx)"
    using write_at_read_text [OF wr, of "txt_file base"] q j by (simp add: table_label_def)
  have fr: "\<forall>k. k \<noteq> q \<longrightarrow> map_of fs' k = map_of fs k"
    using write_at_map_of [OF wr] by simp
  have csv: "\<forall>k. endswith (path_name k) ''.csv'' \<longrightarrow> map_of fs' k = map_of fs k"
    using fr txt_file_not_csv [OF q] by auto
  have ex: "export_tables env (doc res) base False fs' = Inr ([], fs')"
    by (simp add: export_tables_def)
  from g ex l1 rd q fr csv show ?thesis by blast
qed

theorem tables_in_text_without_csv_witness:
  "exports_ok (items (doc report_result)) \<and>
   can_write spec_example_fs (txt_file doc_dir) \<and>
   (\<exists>fs' sfx.
      generate_txt demo_engine report_result doc_dir spec_example_fs = Inr fs' \<and>
      export_tables demo_engine (doc report_result) doc_dir False fs' = Inr ([], fs') \<and>
      read_text fs' (txt_file doc_dir) =
        Some (''# Intro\<newline>\<newline>hello\<newline>\<newline>'' @ ''[Table 1]'' @ ''\<newline>\<newline>'' @ ''a b\<newline>1 2'' @ sfx) \<and>
      map_of fs' [''artifacts'', ''doc'', ''doc_table_1.csv''] = None)"
proof -
  have split: "items (doc report_result) =
      [Heading 1 ''Intro'', TextBlock ''hello''] @ Table (TableItem (Inr [[''a'', ''b''], [''1'', ''2'']])) #
        [Picture, TextBlock ''bye'']"
    by (simp add: report_result_def spec_example_items_def)
  have ok: "exports_ok (items (doc report_result))"
    by (simp add: report_result_def spec_example_items_def)
  have df: "export_to_dataframe (TableItem (Inr [[''a'', ''b''], [''1'', ''2'']])) = Inr [[''a'', ''b''], [''1'', ''2'']]"
    by simp
  have w: "can_write spec_example_fs (txt_file doc_dir)" by code_simp
  have l1: "txt_lines demo_engine (path_name doc_dir) (glob_png spec_example_fs doc_dir)
      [Heading 1 ''Intro'', TextBlock ''hello''] = Inr [''# Intro'', ''hello'']"
    by (simp add: txt_lines_def txt_step_simps)
  have c: "endswith (path_name [''artifacts'', ''doc'', ''doc_table_1.csv'']) ''.csv''" by code_simp
  have n: "map_of spec_example_fs [''artifacts'', ''doc'', ''doc_table_1.csv''] = None"
    by (simp add: spec_example_fs_def)
  from tables_in_text_without_csv [OF split ok df w, of demo_engine] obtain fs' ls1 sfx where
    g: "generate_txt demo_engine report_result doc_dir spec_example_fs = Inr fs'" and
    e: "export_tables demo_engine (doc report_result) doc_dir False fs' = Inr ([], fs')" and
    p: "txt_lines demo_engine (path_name doc_dir) (glob_png spec_example_fs doc_dir)
          [Heading 1 ''Intro'', TextBlock ''hello''] = Inr ls1" and
    r: "read_text fs' (txt_file doc_dir) =
          Some (concat (map (\<lambda>l. l @ ''\<newline>\<newline>'') ls1) @
                ''[Table '' @ str_nat (Suc (length (stream_tables [Heading 1 ''Intro'', TextBlock ''hello'']))) @ '']'' @
                ''\<newline>\<newline>'' @ to_string demo_engine [[''a'', ''b''], [''1'', ''2'']] @ sfx)" and
    k: "\<forall>k. endswith (path_name k) ''.csv'' \<longrightarrow> map_of fs' k = map_of spec_example_fs k"
    by blast
  from p l1 have ls1: "ls1 = [''# Intro'', ''hello'']" by simp
  have r': "read_text fs' (txt_file doc_dir) =
        Some (''# Intro\<newline>\<newline>hello\<newline>\<newline>'' @ ''[Table 1]'' @ ''\<newline>\<newline>'' @ ''a b\<newline>1 2'' @ sfx)"
    using r by (simp add: ls1 str_nat_small demo_engine_def plain_grid_def)
  from k c n have n': "map_of fs' [''artifacts'', ''doc'', ''doc_table_1.csv''] = None" by simp
  have "\<exists>fs' sfx.
      generate_txt demo_engine report_result doc_dir spec_example_fs = Inr fs' \<and>
      export_tables demo_engine (doc report_result) doc_dir False fs' = Inr ([], fs') \<and>
      read_text fs' (txt_file doc_dir) =
        Some (''# Intro\<newline>\<newline>hello\<newline>\<newline>'' @ ''[Table 1]'' @ ''\<newline>\<newline>'' @ ''a b\<newline>1 2'' @ sfx) \<and>
      map_of fs' [''artifacts'', ''doc'', ''doc_table_1.csv''] = None"
    by (intro exI conjI) (rule g e r' n')+
  with ok w show ?thesis by (intro conjI)
qed

section \<open>Properties of the table files\<close>

lemma nat_of_str_str_nat: "nat_of_str (str_nat n) = n"
proof (induction n rule: str_nat.induct)
  case (1 n)
  show ?case
  proof (cases "n < 10")
    case True
    then show ?thesis
      by (subst str_nat.simps) (simp add: nat_of_str_def digit_char_def)
  next
    case False
    have "n mod 10 < 10" by simp
    then have d: "of_char (digit_char (n mod 10)) = 48 + n mod 10"
      by (simp add: digit_char_def)
    from False 1 have "nat_of_str (str_nat (n div 10)) = n div 10" by simp
    with False d show ?thesis
      by (subst str_nat.simps) (simp add: nat_of_str_def)
  qed
qed

lemma str_nat_inject [simp]: "str_nat m = str_nat n \<longleftrightarrow> m = n"
  by (metis nat_of_str_str_nat)

lemma digit_char_not_sep: "d < 10 \<Longrightarrow> CHR ''/'' \<noteq> digit_char d"
proof
  assume d: "d < 10" and e: "CHR ''/'' = digit_char d"
  from e have "(of_char (digit_char d) :: nat) = of_char (CHR ''/'')" by simp
  with d show False by (simp add: digit_char_def)
qed

lemma str_nat_no_sep: "CHR ''/'' \<notin> set (str_nat n)"
proof (induction n rule: str_nat.induct)
  case (1 n)
  show ?case
  proof (cases "n < 10")
    case True
    then show ?thesis by (subst str_nat.simps) (simp add: digit_char_not_sep)
  next
    case False
    have "n mod 10 < 10" by simp
    with False 1 show ?thesis by (subst str_nat.simps) (simp add: digit_char_not_sep)
  qed
qed

lemma named_files_inj:
  assumes t: "CHR ''/'' \<notin> set t" "t \<noteq> []" "last t \<noteq> CHR ''.''"
    and t': "CHR ''/'' \<notin> set t'" "t' \<noteq> []" "last t' \<noteq> CHR ''.''"
    and r: "resolve fs (joinpath base (path_name base @ t)) = Some q"
    and r': "resolve fs' (joinpath base (path_name base @ t')) = Some q"
  shows "t = t'"
proof -
  from resolve_named_file [of base] obtain hs l where
    P: "\<forall>fs t. CHR ''/'' \<notin> set t \<and> t \<noteq> [] \<and> last t \<noteq> CHR ''.'' \<longrightarrow>
       resolve fs (joinpath base (path_name base @ t)) =
         map_option (\<lambda>r. r @ [l @ t]) (resolve fs (base @ hs))"
    by blast
  from P t r obtain r1 where "q = r1 @ [l @ t]" by auto
  moreover from P t' r' obtain r2 where "q = r2 @ [l @ t']" by auto
  ultimately show ?thesis by simp
qed

lemma table_csv_inj:
  "resolve fs (table_csv base i) = Some q \<Longrightarrow> resolve fs' (table_csv base j) = Some q \<Longrightarrow> i = j"
proof -
  assume a: "resolve fs (table_csv base i) = Some q" and b: "resolve fs' (table_csv base j) = Some q"
  have "''_table_'' @ str_nat i @ ''.csv'' = ''_table_'' @ str_nat j @ ''.csv''"
    by (rule named_files_inj [where base = base and fs = fs and fs' = fs' and q = q])
       (use a b in \<open>simp_all add: table_csv_def str_nat_no_sep\<close>)
  then show ?thesis by simp
qed

lemma table_csv_not_txt_file:
  "resolve fs (table_csv base i) = Some q \<Longrightarrow> resolve fs' (txt_file base) \<noteq> Some q"
proof
  assume a: "resolve fs (table_csv base i) = Some q" and b: "resolve fs' (txt_file base) = Some q"
  have "''_table_'' @ str_nat i @ ''.csv'' = ''.txt''"
    by (rule named_files_inj [where base = base and fs = fs and fs' = fs' and q = q])
       (use a b in \<open>simp_all add: table_csv_def txt_file_def str_nat_no_sep\<close>)
  then show False by simp
qed

lemma can_write_resolve: "can_write fs p \<Longrightarrow> \<exists>q. resolve fs p = Some q"
  by (auto simp: can_write_def split: option.splits)

lemma tables_ok_simps [simp]:
  "tables_ok [] = True"
  "tables_ok (t # ts) = (\<not> isl (export_to_dataframe t) \<and> tables_ok ts)"
  by (simp_all add: tables_ok_def)

lemma exports_ok_tables_ok: "exports_ok els = tables_ok (stream_tables els)"
  by (simp add: exports_ok_def tables_ok_def)

text \<open>
  The loop of \<open>export_tables\<close> over tables that all export, when each CSV file can be
  written: it returns the paths \<open><base.name>_table_i.csv\<close> numbered from \<open>i\<close> in the order
  of the list, each file holds the CSV of its table, and no other file changes.
\<close>

lemma tables_loop_ok:
  assumes "tables_ok tbls" and "\<forall>k<length tbls. can_write fs (table_csv base (i + k))"
  shows "\<exists>fs'. tables_loop env base i tbls (paths, fs) =
             Inr (paths @ map (table_csv base) [i..<i + length tbls], fs') \<and>
           (\<forall>p. resolve fs' p = resolve fs p) \<and>
           (\<forall>p. can_write fs' p = can_write fs p) \<and>
           (\<forall>k<length tbls. \<forall>df. export_to_dataframe (tbls ! k) = Inr df \<longrightarrow>
              read_text fs' (table_csv base (i + k)) = Some (to_csv env df)) \<and>
           (\<forall>p. (\<forall>k<length tbls. resolve fs (table_csv base (i + k)) \<noteq> resolve fs p) \<longrightarrow>
              read_text fs' p = read_text fs p)"
  using assms
proof (induction tbls arbitrary: i paths fs)
  case Nil
  then show ?case by simp
next
  case (Cons t tbls)
  from Cons.prems(1) obtain df0 where df0: "export_to_dataframe t = Inr df0"
    by (cases "export_to_dataframe t") auto
  from Cons.prems(1) have ok': "tables_ok tbls" by simp
  from Cons.prems(2) have w0: "can_write fs (table_csv base i)" by force
  from can_write_write_text [OF w0, of "to_csv env df0"] obtain q fs1 where
    q: "resolve fs (table_csv base i) = Some q" and
    wt: "write_text (table_csv base i) (to_csv env df0) fs = Inr fs1" and
    wa: "write_at q (to_csv env df0) fs = Inr fs1" by blast
  have res1: "resolve fs1 p = resolve fs p" for p by (rule write_at_resolve [OF wa])
  have cw1: "can_write fs1 p = can_write fs p" for p by (rule write_at_can_write [OF wa])
  have w': "\<forall>k<length tbls. can_write fs1 (table_csv base (Suc i + k))"
  proof (intro allI impI)
    fix k assume "k < length tbls"
    then have "Suc k < length (t # tbls)" by simp
    with Cons.prems(2) have "can_write fs (table_csv base (i + Suc k))" by blast
    then show "can_write fs1 (table_csv base (Suc i + k))" by (simp add: cw1)
  qed
  from Cons.IH [OF ok' w', of "paths @ [table_csv base i]"] obtain fs' where
    run: "tables_loop env base (Suc i) tbls (paths @ [table_csv base i], fs1) =
             Inr ((paths @ [table_csv base i]) @ map (table_csv base) [Suc i..<Suc i + length tbls], fs')" and
    res: "\<forall>p. resolve fs' p = resolve fs1 p" and
    cw: "\<forall>p. can_write fs' p = can_write fs1 p" and
    rd: "\<forall>k<length tbls. \<forall>df. export_to_dataframe (tbls ! k) = Inr df \<longrightarrow>
              read_text fs' (table_csv base (Suc i + k)) = Some (to_csv env df)" and
    fr: "\<forall>p. (\<forall>k<length tbls. resolve fs1 (table_csv base (Suc i + k)) \<noteq> resolve fs1 p) \<longrightarrow>
              read_text fs' p = read_text fs1 p"
    by blast
  have paths_eq: "(paths @ [table_csv base i]) @ map (table_csv base) [Suc i..<Suc i + length tbls] =
      paths @ map (table_csv base) [i..<i + length (t # tbls)]"
  proof -
    have "[i..<i + length (t # tbls)] = i # [Suc i..<i + length (t # tbls)]"
      by (rule upt_conv_Cons) simp
    moreover have "i + length (t # tbls) = Suc i + length tbls" by simp
    ultimately have e: "[i..<i + length (t # tbls)] = i # [Suc i..<Suc i + length tbls]"
      by (simp only:)
    show ?thesis unfolding e by simp
  qed
  have a: "tables_loop env base i (t # tbls) (paths, fs) =
      Inr (paths @ map (table_csv base) [i..<i + length (t # tbls)], fs')"
    using df0 wt run paths_eq by (simp add: Let_def)
  have first: "read_text fs' (table_csv base i) = Some (to_csv env df0)"
  proof -
    have "\<forall>k<length tbls. resolve fs1 (table_csv base (Suc i + k)) \<noteq> resolve fs1 (table_csv base i)"
    proof (intro allI impI notI)
      fix k assume k: "k < length tbls"
        and e: "resolve fs1 (table_csv base (Suc i + k)) = resolve fs1 (table_csv base i)"
      from e q have "resolve fs1 (table_csv base (Suc i + k)) = Some q" by (simp add: res1)
      with q have "Suc i + k = i" by (rule table_csv_inj [rotated])
      then show False by simp
    qed
    with fr have "read_text fs' (table_csv base i) = read_text fs1 (table_csv base i)" by blast
    then show ?thesis using write_at_read_text [OF wa, of "table_csv base i"] q by simp
  qed
  have b: "\<forall>k<length (t # tbls). \<forall>df. export_to_dataframe ((t # tbls) ! k) = Inr df \<longrightarrow>
              read_text fs' (table_csv base (i + k)) = Some (to_csv env df)"
  proof (intro allI impI)
    fix k df assume k: "k < length (t # tbls)" and e: "export_to_dataframe ((t # tbls) ! k) = Inr df"
    show "read_text fs' (table_csv base (i + k)) = Some (to_csv env df)"
    proof (cases k)
      case 0
      with e df0 first show ?thesis by simp
    next
      case (Suc k')
      with k e rd show ?thesis by simp
    qed
  qed
  have c: "\<forall>p. (\<forall>k<length (t # tbls). resolve fs (table_csv base (i + k)) \<noteq> resolve fs p) \<longrightarrow>
              read_text fs' p = read_text fs p"
  proof (intro allI impI)
    fix p assume h: "\<forall>k<length (t # tbls). resolve fs (table_csv base (i + k)) \<noteq> resolve fs p"
    from h have h0: "resolve fs p \<noteq> Some q" using q by force
    have "\<forall>k<length tbls. resolve fs1 (table_csv base (Suc i + k)) \<noteq> resolve fs1 p"
    proof (intro allI impI)
      fix k assume "k < length tbls"
      then have "Suc k < length (t # tbls)" by simp
      with h have "resolve fs (table_csv base (i + Suc k)) \<noteq> resolve fs p" by blast
      then show "resolve fs1 (table_csv base (Suc i + k)) \<noteq> resolve fs1 p" by (simp add: res1)
    qed
    with fr have "read_text fs' p = read_text fs1 p" by blast
    also have "\<dots> = read_text fs p"
      using write_at_read_text [OF wa, of p] h0 by simp
    finally show "read_text fs' p = read_text fs p" .
  qed
  from a res cw b c show ?case by (simp add: res1 cw1)
qed

section \<open>Table numbering\<close>

text \<open>
  Claim C3, as stated, at a document whose second table does not export: there is no
  annotated text at all, so no label for either Table element, and the exception ends
  the job before any CSV file is written.
\<close>

theorem table_numbering_counterexample:
  "generate_txt demo_engine \<lparr>status = Success, doc = two_tables_doc\<rparr> doc_dir empty_doc_fs =
     Inl (ExportRaised ''merged cells'')"
  by (simp add: generate_txt_def txt_content_def txt_lines_def two_tables_doc_def txt_step_simps)

text \<open>
  Claim C3, amended: for a document whose Table elements all export and whose table list
  is the Table elements of its stream in stream order, the Table element that has
  \<open>i - 1\<close> Table elements before it gets the label \<open>[Table i]\<close>, so the labels run from 1 to
  the number of Table elements in stream order without gaps; the annotated text that
  \<open>generate_txt\<close> writes holds, right after the blocks of the elements before that table,
  the label, a blank line and the table's grid; and with \<open>extract_tables\<close> on,
  \<open>export_tables\<close> then writes the CSV of the same frame to \<open><doc>_table_i.csv\<close>, the
  i-th of the paths it returns, and leaves the annotated text as it is.
\<close>

theorem table_numbering_consistency:
  assumes ok: "exports_ok (items (doc res))"
    and tl: "tables (doc res) = stream_tables (items (doc res))"
    and split: "items (doc res) = pre @ Table t # post"
    and df: "export_to_dataframe t = Inr df"
    and i: "i = Suc (length (stream_tables pre))"
    and w: "can_write fs (txt_file base)"
    and wc: "\<forall>j. 1 \<le> j \<and> j \<le> length (tables (doc res)) \<longrightarrow> can_write fs (table_csv base j)"
  shows "\<exists>fs1 paths fs2 ls1 ls2 pi sfx.
           generate_txt env res base fs = Inr fs1 \<and>
           export_tables env (doc res) base True fs1 = Inr (paths, fs2) \<and>
           txt_lines env (path_name base) (glob_png fs base) pre = Inr ls1 \<and>
           txt_loop env (path_name base) (glob_png fs base) ([], 0, 0) (items (doc res)) =
             Inr (ls1 @ [''[Table '' @ str_nat i @ '']'', to_string env df] @ ls2,
                  length (stream_tables (items (doc res))), pi) \<and>
           read_text fs2 (txt_file base) =
             Some (concat (map (\<lambda>l. l @ ''\<newline>\<newline>'') ls1) @
                   ''[Table '' @ str_nat i @ '']'' @ ''\<newline>\<newline>'' @ to_string env df @ sfx) \<and>
           read_text fs2 (table_csv base i) = Some (to_csv env df) \<and>
           paths = map (table_csv base) [1..<Suc (length (tables (doc res)))] \<and>
           paths ! (i - 1) = table_csv base i"
proof -
  let ?b = "path_name base" and ?imgs = "glob_png fs base"
  let ?N = "length (tables (doc res))"
  from generate_txt_ok [OF ok w, of env] obtain ls q fs1 where
    ls: "txt_lines env ?b ?imgs (items (doc res)) = Inr ls" and
    q: "resolve fs (txt_file base) = Some q" and
    wr: "write_at q (join ''\<newline>\<newline>'' ls) fs = Inr fs1" and
    g: "generate_txt env res base fs = Inr fs1" by blast
  from ok split have ok': "exports_ok (pre @ Table t # post)" by simp
  from txt_lines_table_split [OF ok' df, of env ?b ?imgs] i split obtain ls1 ls2 pi where
    l1: "txt_lines env ?b ?imgs pre = Inr ls1" and
    whole: "txt_loop env ?b ?imgs ([], 0, 0) (items (doc res)) =
       Inr (ls1 @ [table_label i, to_string env df] @ ls2, length (stream_tables (items (doc res))), pi)"
    by auto
  from whole ls have "ls = ls1 @ [table_label i, to_string env df] @ ls2"
    by (simp add: txt_lines_def)
  then obtain sfx where
    j: "join ''\<newline>\<newline>'' ls = concat (map (\<lambda>l. l @ ''\<newline>\<newline>'') ls1) @
          table_label i @ ''\<newline>\<newline>'' @ to_string env df @ sfx"
    using join_two_blocks [of "''\<newline>\<newline>''" ls1 "table_label i" "to_string env df" ls2]
    by auto
  have rd1: "read_text fs1 (txt_file base) =
      Some (concat (map (\<lambda>l. l @ ''\<newline>\<newline>'') ls1) @
            ''[Table '' @ str_nat i @ '']'' @ ''\<newline>\<newline>'' @ to_string env df @ sfx)"
    using write_at_read_text [OF wr, of "txt_file base"] q j by (simp add: table_label_def)
  from ok tl have tok: "tables_ok (tables (doc res))" by (simp add: exports_ok_tables_ok)
  have wc1: "\<forall>k<?N. can_write fs1 (table_csv base (1 + k))"
    using wc by (simp add: write_at_can_write [OF wr])
  from tables_loop_ok [OF tok wc1, of env "[]"] obtain fs2 where
    run: "tables_loop env base 1 (tables (doc res)) ([], fs1) =
            Inr ([] @ map (table_csv base) [1..<1 + ?N], fs2)" and
    rd: "\<forall>k<?N. \<forall>df. export_to_dataframe (tables (doc res) ! k) = Inr df \<longrightarrow>
              read_text fs2 (table_csv base (1 + k)) = Some (to_csv env df)" and
    fr: "\<forall>p. (\<forall>k<?N. resolve fs1 (table_csv base (1 + k)) \<noteq> resolve fs1 p) \<longrightarrow>
              read_text fs2 p = read_text fs1 p"
    by blast
  have ex: "export_tables env (doc res) base True fs1 = Inr (map (table_csv base) [1..<Suc ?N], fs2)"
    using run by (simp add: export_tables_def)
  have k: "length (stream_tables pre) < ?N"
    and nth: "tables (doc res) ! length (stream_tables pre) = t"
    using tl split by (simp_all add: nth_append)
  from rd k nth df i have csv: "read_text fs2 (table_csv base i) = Some (to_csv env df)" by simp
  have "\<forall>k<?N. resolve fs1 (table_csv base (1 + k)) \<noteq> resolve fs1 (txt_file base)"
  proof (intro allI impI)
    fix k assume "k < ?N"
    with wc1 have "can_write fs1 (table_csv base (1 + k))" by blast
    from can_write_resolve [OF this] obtain q' where
      "resolve fs1 (table_csv base (1 + k)) = Some q'" by blast
    then show "resolve fs1 (table_csv base (1 + k)) \<noteq> resolve fs1 (txt_file base)"
      using table_csv_not_txt_file [of fs1 base "1 + k" q' fs1] by auto
  qed
  with fr rd1 have rd2: "read_text fs2 (txt_file base) =
      Some (concat (map (\<lambda>l. l @ ''\<newline>\<newline>'') ls1) @
            ''[Table '' @ str_nat i @ '']'' @ ''\<newline>\<newline>'' @ to_string env df @ sfx)"
    by simp
  have pth: "map (table_csv base) [1..<Suc ?N] ! (i - 1) = table_csv base i"
    using k i by (simp del: upt_Suc)
  from g ex l1 whole rd2 csv pth show ?thesis unfolding table_label_def by blast
qed

theorem table_numbering_consistency_witness:
  "exports_ok (items three_tables_doc) \<and>
   tables three_tables_doc = stream_tables (items three_tables_doc) \<and>
   can_write empty_doc_fs (txt_file doc_dir) \<and>
   can_write empty_doc_fs (table_csv doc_dir 1) \<and>
   can_write empty_doc_fs (table_csv doc_dir 2) \<and>
   can_write empty_doc_fs (table_csv doc_dir 3) \<and>
   (\<exists>fs1 paths fs2 sfx.
      generate_txt demo_engine \<lparr>status = Success, doc = three_tables_doc\<rparr> doc_dir empty_doc_fs = Inr fs1 \<and>
      export_tables demo_engine three_tables_doc doc_dir True fs1 = Inr (paths, fs2) \<and>
      read_text fs2 (txt_file doc_dir) =
        Some (''[Table 1]\<newline>\<newline>x\<newline>1\<newline>\<newline>then\<newline>\<newline>'' @ ''[Table 2]'' @ ''\<newline>\<newline>'' @ ''y\<newline>2'' @ sfx) \<and>
      read_text fs2 (table_csv doc_dir 2) = Some ''y\<newline>2'' \<and>
      paths ! 1 = table_csv doc_dir 2)"
proof -
  let ?res = "\<lparr>status = Success, doc = three_tables_doc\<rparr>"
  have ok: "exports_ok (items (doc ?res))" by (simp add: three_tables_doc_def)
  have tl: "tables (doc ?res) = stream_tables (items (doc ?res))"
    by (simp add: three_tables_doc_def)
  have split: "items (doc ?res) =
      [Table (TableItem (Inr [[''x''], [''1'']])), TextBlock ''then''] @
        Table (TableItem (Inr [[''y''], [''2'']])) # [Picture, Table (TableItem (Inr [[''z'']]))]"
    by (simp add: three_tables_doc_def)
  have df: "export_to_dataframe (TableItem (Inr [[''y''], [''2'']])) = Inr [[''y''], [''2'']]" by simp
  have i: "2 = Suc (length (stream_tables [Table (TableItem (Inr [[''x''], [''1'']])), TextBlock ''then'']))"
    by simp
  have w: "can_write empty_doc_fs (txt_file doc_dir)" by code_simp
  have c1: "can_write empty_doc_fs (table_csv doc_dir 1)"
    and c2: "can_write empty_doc_fs (table_csv doc_dir 2)"
    and c3: "can_write empty_doc_fs (table_csv doc_dir 3)" by code_simp+
  have len: "length (tables (doc ?res)) = 3" by (simp add: three_tables_doc_def)
  have wc: "\<forall>j. 1 \<le> j \<and> j \<le> length (tables (doc ?res)) \<longrightarrow> can_write empty_doc_fs (table_csv doc_dir j)"
  proof (intro allI impI)
    fix j :: nat assume "1 \<le> j \<and> j \<le> length (tables (doc ?res))"
    with len have "j = 1 \<or> j = 2 \<or> j = 3" by auto
    with c1 c2 c3 show "can_write empty_doc_fs (table_csv doc_dir j)" by auto
  qed
  have l1: "txt_lines demo_engine (path_name doc_dir) (glob_png empty_doc_fs doc_dir)
      [Table (TableItem (Inr [[''x''], [''1'']])), TextBlock ''then''] = Inr [''[Table 1]'', ''x\<newline>1'', ''then'']"
    by (simp add: txt_lines_def txt_step_simps table_label_def str_nat_small demo_engine_def
        plain_grid_def strip_def is_space_def)
  from table_numbering_consistency [OF ok tl split df i w wc, of demo_engine]
  obtain fs1 paths fs2 ls1 sfx where
    g: "generate_txt demo_engine ?res doc_dir empty_doc_fs = Inr fs1" and
    e: "export_tables demo_engine (doc ?res) doc_dir True fs1 = Inr (paths, fs2)" and
    p: "txt_lines demo_engine (path_name doc_dir) (glob_png empty_doc_fs doc_dir)
          [Table (TableItem (Inr [[''x''], [''1'']])), TextBlock ''then''] = Inr ls1" and
    r: "read_text fs2 (txt_file doc_dir) =
          Some (concat (map (\<lambda>l. l @ ''\<newline>\<newline>'') ls1) @
                ''[Table '' @ str_nat 2 @ '']'' @ ''\<newline>\<newline>'' @ to_string demo_engine [[''y''], [''2'']] @ sfx)" and
    c: "read_text fs2 (table_csv doc_dir 2) = Some (to_csv demo_engine [[''y''], [''2'']])" and
    n: "paths ! (2 - 1) = table_csv doc_dir 2"
    by blast
  from p l1 have ls1: "ls1 = [''[Table 1]'', ''x\<newline>1'', ''then'']" by simp
  from e have e': "export_tables demo_engine three_tables_doc doc_dir True fs1 = Inr (paths, fs2)" by simp
  have r': "read_text fs2 (txt_file doc_dir) =
        Some (''[Table 1]\<newline>\<newline>x\<newline>1\<newline>\<newline>then\<newline>\<newline>'' @ ''[Table 2]'' @ ''\<newline>\<newline>'' @ ''y\<newline>2'' @ sfx)"
    using r by (simp add: ls1 str_nat_small demo_engine_def plain_grid_def)
  have c': "read_text fs2 (table_csv doc_dir 2) = Some ''y\<newline>2''"
    using c by (simp add: demo_engine_def csv_grid_def)
  from n have n': "paths ! 1 = table_csv doc_dir 2" by simp
  have "\<exists>fs1 paths fs2 sfx.
      generate_txt demo_engine ?res doc_dir empty_doc_fs = Inr fs1 \<and>
      export_tables demo_engine three_tables_doc doc_dir True fs1 = Inr (paths, fs2) \<and>
      read_text fs2 (txt_file doc_dir) =
        Some (''[Table 1]\<newline>\<newline>x\<newline>1\<newline>\<newline>then\<newline>\<newline>'' @ ''[Table 2]'' @ ''\<newline>\<newline>'' @ ''y\<newline>2'' @ sfx) \<and>
      read_text fs2 (table_csv doc_dir 2) = Some ''y\<newline>2'' \<and>
      paths ! 1 = table_csv doc_dir 2"
    by (intro exI conjI) (rule g e' r' c' n')+
  with ok tl w c1 c2 c3 show ?thesis by simp
qed

section \<open>Properties of the archive\<close>

lemma out_root_simp: "out_root = [''artifacts'']"
  by (simp add: out_root_def Path_def)










section \<open>Properties of the spreadsheet branch\<close>

lemma write_texts_append:
  "write_texts (xs @ ys) fs = (case write_texts xs fs of Inl e \<Rightarrow> Inl e | Inr fs' \<Rightarrow> write_texts ys fs')"
  by (induction xs arbitrary: fs) (auto split: sum.splits)

lemma write_sheet_eq:
  "write_sheet env base s fs =
     write_texts (map (\<lambda>nc. (joinpath base (fst nc), snd nc)) (sheet_files env (path_name base) s)) fs"
  by (cases s) (simp add: write_sheet_def sheet_files_def Let_def split: sum.splits)

lemma sheets_loop_eq: "sheets_loop env base sheets fs = write_texts (sheet_writes env base sheets) fs"
proof (induction sheets arbitrary: fs)
  case Nil
  show ?case by (simp add: sheet_writes_def)
next
  case (Cons s sheets)
  have "sheet_writes env base (s # sheets) =
      map (\<lambda>nc. (joinpath base (fst nc), snd nc)) (sheet_files env (path_name base) s) @
      sheet_writes env base sheets"
    by (simp add: sheet_writes_def)
  then show ?case
    by (simp add: write_texts_append write_sheet_eq [symmetric] Cons.IH split: sum.splits)
qed

text \<open>
  A sequence of writes to files that can be written, at locations that differ from each
  other: it returns, each file holds what was written to it, and nothing else changes.
\<close>

lemma write_texts_ok:
  assumes "\<forall>w \<in> set ws. can_write fs (fst w)"
    and "distinct (map (\<lambda>w. resolve fs (fst w)) ws)"
  shows "\<exists>fs'. write_texts ws fs = Inr fs' \<and>
           (\<forall>p. resolve fs' p = resolve fs p) \<and>
           (\<forall>w \<in> set ws. read_text fs' (fst w) = Some (snd w)) \<and>
           (\<forall>k. Some k \<notin> (\<lambda>w. resolve fs (fst w)) ` set ws \<longrightarrow> map_of fs' k = map_of fs k)"
  using assms
proof (induction ws arbitrary: fs)
  case Nil
  then show ?case by simp
next
  case (Cons w ws)
  from Cons.prems(1) have w0: "can_write fs (fst w)" by simp
  from can_write_write_text [OF w0, of "snd w"] obtain q fs1 where
    q: "resolve fs (fst w) = Some q" and
    wt: "write_text (fst w) (snd w) fs = Inr fs1" and
    wa: "write_at q (snd w) fs = Inr fs1" by blast
  have res1: "resolve fs1 p = resolve fs p" for p by (rule write_at_resolve [OF wa])
  have cw1: "can_write fs1 p = can_write fs p" for p by (rule write_at_can_write [OF wa])
  from Cons.prems(1) have c': "\<forall>w \<in> set ws. can_write fs1 (fst w)" by (simp add: cw1)
  from Cons.prems(2) have d': "distinct (map (\<lambda>w. resolve fs1 (fst w)) ws)"
    and notin: "Some q \<notin> (\<lambda>w. resolve fs (fst w)) ` set ws"
    using q by (auto simp: res1)
  from Cons.IH [OF c' d'] obtain fs' where
    run: "write_texts ws fs1 = Inr fs'" and
    res: "\<forall>p. resolve fs' p = resolve fs1 p" and
    rd: "\<forall>w \<in> set ws. read_text fs' (fst w) = Some (snd w)" and
    fr: "\<forall>k. Some k \<notin> (\<lambda>w. resolve fs1 (fst w)) ` set ws \<longrightarrow> map_of fs' k = map_of fs1 k"
    by blast
  have a: "write_texts (w # ws) fs = Inr fs'" using wt run by simp
  from fr notin have "map_of fs' q = map_of fs1 q" by (simp add: res1)
  then have first: "read_text fs' (fst w) = Some (snd w)"
    using q write_at_map_of [OF wa, of q] by (simp add: read_text_def res res1)
  have c: "\<forall>k. Some k \<notin> (\<lambda>w. resolve fs (fst w)) ` set (w # ws) \<longrightarrow> map_of fs' k = map_of fs k"
  proof (intro allI impI)
    fix k assume h: "Some k \<notin> (\<lambda>w. resolve fs (fst w)) ` set (w # ws)"
    then have "k \<noteq> q" using q by auto
    moreover from h have "Some k \<notin> (\<lambda>w. resolve fs1 (fst w)) ` set ws" by (simp add: res1)
    ultimately show "map_of fs' k = map_of fs k"
      using fr write_at_map_of [OF wa, of k] by simp
  qed
  from a res rd first c show ?case by (simp add: res1)
qed

lemma last_neq: "last a \<noteq> last b \<Longrightarrow> a \<noteq> b"
  by auto

lemma sheet_endings_good:
  "CHR ''/'' \<notin> set sh \<Longrightarrow> t \<in> set (sheet_endings sh) \<Longrightarrow>
   CHR ''/'' \<notin> set t \<and> t \<noteq> [] \<and> last t \<noteq> CHR ''.''"
  by (auto simp: sheet_endings_def)

lemma ext_neq [simp]:
  "x @ ''.csv'' \<noteq> y @ ''.md''" "x @ ''.csv'' \<noteq> y @ ''.html''" "x @ ''.csv'' \<noteq> y @ ''.txt''"
  "x @ ''.md'' \<noteq> y @ ''.csv''" "x @ ''.md'' \<noteq> y @ ''.html''" "x @ ''.md'' \<noteq> y @ ''.txt''"
  "x @ ''.html'' \<noteq> y @ ''.csv''" "x @ ''.html'' \<noteq> y @ ''.md''" "x @ ''.html'' \<noteq> y @ ''.txt''"
  "x @ ''.txt'' \<noteq> y @ ''.csv''" "x @ ''.txt'' \<noteq> y @ ''.md''" "x @ ''.txt'' \<noteq> y @ ''.html''"
  "x @ ''.json'' \<noteq> y @ ''.csv''" "x @ ''.json'' \<noteq> y @ ''.md''" "x @ ''.json'' \<noteq> y @ ''.html''"
  "x @ ''.json'' \<noteq> y @ ''.txt''"
  "x @ ''.csv'' \<noteq> y @ ''.json''" "x @ ''.md'' \<noteq> y @ ''.json''" "x @ ''.html'' \<noteq> y @ ''.json''"
  "x @ ''.txt'' \<noteq> y @ ''.json''"
  by (rule last_neq, simp)+

lemma sheet_endings_distinct: "distinct (sheet_endings sh)"
  by (simp add: sheet_endings_def)

lemma sheet_endings_disjoint:
  "sh \<noteq> sh' \<Longrightarrow> t \<in> set (sheet_endings sh) \<Longrightarrow> t \<notin> set (sheet_endings sh')"
proof
  assume ne: "sh \<noteq> sh'" and a: "t \<in> set (sheet_endings sh)" and b: "t \<in> set (sheet_endings sh')"
  from a obtain e where e: "t = ''_'' @ sh @ e" "e \<in> {''.csv'', ''.md'', ''.html'', ''.txt''}"
    by (auto simp: sheet_endings_def)
  from b obtain e' where e': "t = ''_'' @ sh' @ e'" "e' \<in> {''.csv'', ''.md'', ''.html'', ''.txt''}"
    by (auto simp: sheet_endings_def)
  from e e' have eq: "sh @ e = sh' @ e'" by simp
  have "e = e'"
  proof (rule ccontr)
    assume "e \<noteq> e'"
    with e(2) e'(2) have "last (sh @ e) \<noteq> last (sh' @ e')" by auto
    with eq show False by simp
  qed
  with eq ne show False by simp
qed

lemma all_endings_distinct:
  "distinct (map fst sheets) \<Longrightarrow> distinct (concat (map (\<lambda>s. sheet_endings (fst s)) sheets))"
proof (induction sheets)
  case Nil
  show ?case by simp
next
  case (Cons s sheets)
  have "set (sheet_endings (fst s)) \<inter> set (concat (map (\<lambda>s. sheet_endings (fst s)) sheets)) = {}"
  proof (rule ccontr)
    assume "\<not> ?thesis"
    then obtain t s' where "t \<in> set (sheet_endings (fst s))" "s' \<in> set sheets"
      "t \<in> set (sheet_endings (fst s'))" by auto
    moreover from Cons.prems \<open>s' \<in> set sheets\<close> have "fst s \<noteq> fst s'" by auto
    ultimately show False using sheet_endings_disjoint by blast
  qed
  with Cons show ?case by (simp add: sheet_endings_distinct)
qed

lemma sheet_writes_paths:
  "map fst (sheet_writes env base sheets) =
     map (\<lambda>t. joinpath base (path_name base @ t)) (concat (map (\<lambda>s. sheet_endings (fst s)) sheets))"
  by (induction sheets) (simp_all add: sheet_writes_def sheet_files_def sheet_endings_def)

lemma sheet_writes_distinct:
  assumes dist: "distinct (map fst sheets)"
    and plain: "\<forall>s \<in> set sheets. CHR ''/'' \<notin> set (fst s)"
    and w: "\<forall>w \<in> set (sheet_writes env base sheets). can_write fs (fst w)"
  shows "distinct (map (\<lambda>w. resolve fs (fst w)) (sheet_writes env base sheets))"
proof -
  let ?ts = "concat (map (\<lambda>s. sheet_endings (fst s)) sheets)"
  let ?f = "\<lambda>t. resolve fs (joinpath base (path_name base @ t))"
  have good: "CHR ''/'' \<notin> set t \<and> t \<noteq> [] \<and> last t \<noteq> CHR ''.''" if "t \<in> set ?ts" for t
    using that plain sheet_endings_good by auto
  have some: "\<exists>q. ?f t = Some q" if "t \<in> set ?ts" for t
  proof -
    from that have "joinpath base (path_name base @ t) \<in> set (map fst (sheet_writes env base sheets))"
      unfolding sheet_writes_paths by simp
    with w have "can_write fs (joinpath base (path_name base @ t))" by auto
    then show ?thesis by (rule can_write_resolve)
  qed
  have "inj_on ?f (set ?ts)"
  proof (rule inj_onI)
    fix t t' assume t: "t \<in> set ?ts" and t': "t' \<in> set ?ts" and e: "?f t = ?f t'"
    from some [OF t] obtain q where q: "?f t = Some q" by blast
    with e have q': "?f t' = Some q" by simp
    from good [OF t] good [OF t'] show "t = t'"
      using named_files_inj [of t t' fs base q fs] q q' by blast
  qed
  with all_endings_distinct [OF dist] have "distinct (map ?f ?ts)"
    by (simp add: distinct_map)
  moreover have "map (\<lambda>w. resolve fs (fst w)) (sheet_writes env base sheets) = map ?f ?ts"
    using sheet_writes_paths [of env base sheets]
    by (metis (no_types, lifting) map_map comp_def map_eq_conv)
  ultimately show ?thesis by simp
qed

lemma stem_no_sep: "CHR ''/'' \<notin> set (stem (Path n))"
proof -
  have n: "CHR ''/'' \<notin> set (path_name (Path n))"
    using Path_parts [of "last (Path n)" n] by (auto simp: path_name_def)
  then show ?thesis
    by (auto simp: stem_def Let_def dest: in_set_takeD split: option.splits)
qed

lemma base_name_stem:
  assumes "s \<noteq> []" "s \<noteq> ''.''" "CHR ''/'' \<notin> set s"
  shows "joinpath out_root s = [''artifacts'', s]" "path_name (joinpath out_root s) = s"
  using assms by (simp_all add: joinpath_def out_root_simp Path_plain path_name_def)

lemma mkdir_cases:
  assumes "mkdir p fs = Inr fs0"
  shows "fs0 = fs \<or> (\<exists>q. resolve fs p = Some q \<and> map_of fs q = None \<and> fs0 = fs @ [(q, Directory)])"
  using assms by (auto simp: mkdir_def split: option.splits dest: mkdir_at_cases)

lemma sheet_writes_set:
  "set (sheet_writes env base sheets) =
     {(joinpath base n, c) | n c s. s \<in> set sheets \<and> (n, c) \<in> set (sheet_files env (path_name base) s)}"
proof (intro set_eqI iffI)
  fix w assume "w \<in> set (sheet_writes env base sheets)"
  then obtain s nc where "s \<in> set sheets" "nc \<in> set (sheet_files env (path_name base) s)"
    "w = (joinpath base (fst nc), snd nc)"
    by (auto simp: sheet_writes_def)
  then have "s \<in> set sheets \<and> (fst nc, snd nc) \<in> set (sheet_files env (path_name base) s) \<and>
    w = (joinpath base (fst nc), snd nc)" by simp
  then show "w \<in> {(joinpath base n, c) | n c s. s \<in> set sheets \<and> (n, c) \<in> set (sheet_files env (path_name base) s)}"
    by blast
next
  fix w assume "w \<in> {(joinpath base n, c) | n c s. s \<in> set sheets \<and> (n, c) \<in> set (sheet_files env (path_name base) s)}"
  then obtain n c s where "s \<in> set sheets" "(n, c) \<in> set (sheet_files env (path_name base) s)"
    "w = (joinpath base n, c)" by blast
  then show "w \<in> set (sheet_writes env base sheets)"
    by (force simp: sheet_writes_def)
qed

lemma card_sheet_keys:
  "distinct (map fst sheets) \<Longrightarrow> card ((\<lambda>s. b @ ''_'' @ fst s) ` set sheets) = length sheets"
proof -
  assume d: "distinct (map fst sheets)"
  have "(\<lambda>s. b @ ''_'' @ fst s) ` set sheets = set (map (\<lambda>sh. b @ ''_'' @ sh) (map fst sheets))"
    by auto
  moreover have "distinct (map (\<lambda>sh. b @ ''_'' @ sh) (map fst sheets))"
    using d by (simp add: distinct_map inj_on_def del: map_map)
  ultimately show ?thesis
    by (metis distinct_card length_map)
qed

lemma doc_file_not_sheet_file:
  assumes e: "e \<in> {''.md'', ''.html'', ''.json'', ''.txt''}"
    and plain: "CHR ''/'' \<notin> set (fst s)"
    and n: "(n, c) \<in> set (sheet_files env (path_name base) s)"
    and r: "resolve fs (joinpath base n) = Some q"
  shows "resolve fs (joinpath base (path_name base @ e)) \<noteq> Some q"
proof
  assume r': "resolve fs (joinpath base (path_name base @ e)) = Some q"
  from n obtain t where t: "t \<in> set (sheet_endings (fst s))" "n = path_name base @ t"
    by (auto simp: sheet_files_def sheet_endings_def)
  from sheet_endings_good [OF plain t(1)] have g: "CHR ''/'' \<notin> set t" "t \<noteq> []" "last t \<noteq> CHR ''.''"
    by simp_all
  from e have g': "CHR ''/'' \<notin> set e" "e \<noteq> []" "last e \<noteq> CHR ''.''" by auto
  from named_files_inj [OF g g' _ r'] r t(2) have "t = e" by simp
  with t(1) e show False by (auto simp: sheet_endings_def)
qed

text \<open>
  Claim C7, as stated, at a workbook whose file name is \<open>..xlsx\<close>: the suffix is
  \<open>.xlsx\<close> and the stem is \<open>.\<close>, so \<open>base\<close> is the output root itself and \<open>base.name\<close> is
  \<open>artifacts\<close>. The groups are keyed \<open>artifacts_<sheet-name>\<close>, not \<open><stem>_<sheet-name>\<close>;
  their files are regular files of the output root, which the archive leaves out.
\<close>

theorem dotted_workbook_counterexample:
  "stem (Path (name dotted_workbook)) = ''.'' \<and>
   lstrip_dot (lower (suffix (Path (name dotted_workbook)))) = ''xlsx'' \<and>
   convert_all_files demo_engine True [] [dotted_workbook] =
     Inr ([([''artifacts''], Directory),
           ([''artifacts'', ''artifacts_Sales.csv''], RegFile ''q,n\<newline>1,7''),
           ([''artifacts'', ''artifacts_Sales.md''], RegFile ''q n\<newline>1 7''),
           ([''artifacts'', ''artifacts_Sales.html''], RegFile ''q n\<newline>1 7''),
           ([''artifacts'', ''artifacts_Sales.txt''], RegFile ''q n\<newline>1 7''),
           ([''artifacts'', ''artifacts_Costs.csv''], RegFile ''k\<newline>3''),
           ([''artifacts'', ''artifacts_Costs.md''], RegFile ''k\<newline>3''),
           ([''artifacts'', ''artifacts_Costs.html''], RegFile ''k\<newline>3''),
           ([''artifacts'', ''artifacts_Costs.txt''], RegFile ''k\<newline>3'')],
          [], [])"
  by code_simp

text \<open>
  Claim C7, amended: for a spreadsheet input with \<open>extract_tables\<close> on, whose workbook
  is read as sheets of distinct names without \<open>/\<close>, whose directory
  \<open>base = out_root / stem\<close> is there or can be made and in which no directory stands where
  a sheet file goes: the iteration writes for each sheet the four files of its group
  \<open><base.name>_<sheet-name>\<close> (CSV, Markdown, HTML and text renderings of the sheet) into
  \<open>base\<close>, changes nothing else, in particular none of \<open><base.name>.md\<close>,
  \<open><base.name>.html\<close>, \<open><base.name>.json\<close> and \<open><base.name>.txt\<close>, and adds no conversion
  result; the groups are as many as the sheets. \<open>base.name\<close> is the stem of the file name
  unless that stem is \<open>.\<close>.
\<close>

theorem spreadsheet_bypass:
  assumes ext: "lstrip_dot (lower (suffix (Path (name f)))) = ''xlsx''"
    and rd: "read_excel env (data f) = Inr sheets"
    and dist: "distinct (map fst sheets)"
    and plain: "\<forall>s \<in> set sheets. CHR ''/'' \<notin> set (fst s)"
    and base: "base = joinpath out_root (stem (Path (name f)))"
    and mk: "mkdir base fs = Inr fs0"
    and w: "\<forall>s \<in> set sheets. \<forall>(n, c) \<in> set (sheet_files env (path_name base) s). can_write fs0 (joinpath base n)"
  shows "\<exists>fs'. process_file env True (fs, results) f = Inr (fs', results) \<and>
           (\<forall>s \<in> set sheets. \<forall>(n, c) \<in> set (sheet_files env (path_name base) s).
              read_text fs' (joinpath base n) = Some c) \<and>
           (\<forall>k. (\<forall>s \<in> set sheets. \<forall>(n, c) \<in> set (sheet_files env (path_name base) s).
                    resolve fs0 (joinpath base n) \<noteq> Some k) \<longrightarrow>
                map_of fs' k = map_of fs0 k) \<and>
           (\<forall>e \<in> {''.md'', ''.html'', ''.json'', ''.txt''}.
              read_text fs' (joinpath base (path_name base @ e)) =
                read_text fs0 (joinpath base (path_name base @ e))) \<and>
           (fs0 = fs \<or> (\<exists>q. resolve fs base = Some q \<and> map_of fs q = None \<and> fs0 = fs @ [(q, Directory)])) \<and>
           card ((\<lambda>s. path_name base @ ''_'' @ fst s) ` set sheets) = length sheets \<and>
           (stem (Path (name f)) \<noteq> [] \<and> stem (Path (name f)) \<noteq> ''.'' \<longrightarrow>
              path_name base = stem (Path (name f)))"
proof -
  let ?ws = "sheet_writes env base sheets"
  from w have cw: "\<forall>w \<in> set ?ws. can_write fs0 (fst w)"
    by (auto simp: sheet_writes_set)
  from sheet_writes_distinct [OF dist plain cw]
  have dw: "distinct (map (\<lambda>w. resolve fs0 (fst w)) ?ws)" .
  from write_texts_ok [OF cw dw] obtain fs' where
    run: "write_texts ?ws fs0 = Inr fs'" and
    res: "\<forall>p. resolve fs' p = resolve fs0 p" and
    rd': "\<forall>w \<in> set ?ws. read_text fs' (fst w) = Some (snd w)" and
    fr: "\<forall>k. Some k \<notin> (\<lambda>w. resolve fs0 (fst w)) ` set ?ws \<longrightarrow> map_of fs' k = map_of fs0 k"
    by blast
  have a: "process_file env True (fs, results) f = Inr (fs', results)"
    using ext rd mk run base by (simp add: process_file_def sheets_loop_eq)
  have b: "\<forall>s \<in> set sheets. \<forall>(n, c) \<in> set (sheet_files env (path_name base) s).
             read_text fs' (joinpath base n) = Some c"
    using rd' by (fastforce simp: sheet_writes_set)
  have c: "\<forall>k. (\<forall>s \<in> set sheets. \<forall>(n, c) \<in> set (sheet_files env (path_name base) s).
                    resolve fs0 (joinpath base n) \<noteq> Some k) \<longrightarrow>
                map_of fs' k = map_of fs0 k"
  proof (intro allI impI)
    fix k assume h: "\<forall>s \<in> set sheets. \<forall>(n, c) \<in> set (sheet_files env (path_name base) s).
                    resolve fs0 (joinpath base n) \<noteq> Some k"
    have "Some k \<notin> (\<lambda>w. resolve fs0 (fst w)) ` set ?ws"
    proof
      assume "Some k \<in> (\<lambda>w. resolve fs0 (fst w)) ` set ?ws"
      then obtain n c s where "s \<in> set sheets" "(n, c) \<in> set (sheet_files env (path_name base) s)"
        "resolve fs0 (joinpath base n) = Some k"
        by (auto simp: sheet_writes_set)
      with h show False by blast
    qed
    with fr show "map_of fs' k = map_of fs0 k" by blast
  qed
  have d: "\<forall>e \<in> {''.md'', ''.html'', ''.json'', ''.txt''}.
              read_text fs' (joinpath base (path_name base @ e)) =
                read_text fs0 (joinpath base (path_name base @ e))"
  proof
    fix e :: string assume e: "e \<in> {''.md'', ''.html'', ''.json'', ''.txt''}"
    let ?p = "joinpath base (path_name base @ e)"
    show "read_text fs' ?p = read_text fs0 ?p"
    proof (cases "resolve fs0 ?p")
      case None
      with res show ?thesis by (simp add: read_text_def)
    next
      case (Some q)
      have "\<forall>s \<in> set sheets. \<forall>(n, c) \<in> set (sheet_files env (path_name base) s).
              resolve fs0 (joinpath base n) \<noteq> Some q"
      proof (intro ballI, clarify)
        fix s n c assume s: "s \<in> set sheets" and n: "(n, c) \<in> set (sheet_files env (path_name base) s)"
          and r: "resolve fs0 (joinpath base n) = Some q"
        from plain s have "CHR ''/'' \<notin> set (fst s)" by blast
        from doc_file_not_sheet_file [OF e this n r] Some show False by simp
      qed
      with c have "map_of fs' q = map_of fs0 q" by blast
      with Some res show ?thesis by (simp add: read_text_def)
    qed
  qed
  have g: "stem (Path (name f)) \<noteq> [] \<and> stem (Path (name f)) \<noteq> ''.'' \<longrightarrow>
              path_name base = stem (Path (name f))"
    using base base_name_stem(2) [of "stem (Path (name f))"] stem_no_sep [of "name f"] by simp
  from a b c d mkdir_cases [OF mk] card_sheet_keys [OF dist, of "path_name base"] g
  show ?thesis by blast
qed

theorem spreadsheet_bypass_witness:
  "lstrip_dot (lower (suffix (Path (name workbook)))) = ''xlsx'' \<and>
   read_excel demo_engine (data workbook) =
     Inr [(''Sales'', [[''q'', ''n''], [''1'', ''7'']]), (''Costs'', [[''k''], [''3'']])] \<and>
   joinpath out_root (stem (Path (name workbook))) = [''artifacts'', ''Book''] \<and>
   mkdir [''artifacts'', ''Book''] root_fs = Inr (root_fs @ [([''artifacts'', ''Book''], Directory)]) \<and>
   list_all (\<lambda>w. can_write (root_fs @ [([''artifacts'', ''Book''], Directory)]) (fst w))
     (sheet_writes demo_engine [''artifacts'', ''Book'']
        [(''Sales'', [[''q'', ''n''], [''1'', ''7'']]), (''Costs'', [[''k''], [''3'']])]) \<and>
   (\<exists>fs'. process_file demo_engine True (root_fs, []) workbook = Inr (fs', []) \<and>
      read_text fs' [''artifacts'', ''Book'', ''Book_Sales.csv''] = Some ''q,n\<newline>1,7'' \<and>
      read_text fs' [''artifacts'', ''Book'', ''Book_Costs.txt''] = Some ''k\<newline>3'' \<and>
      read_text fs' [''artifacts'', ''Book'', ''Book.md''] = None \<and>
      card ((\<lambda>s. ''Book'' @ ''_'' @ fst s) `
            set [(''Sales'', [[''q'', ''n''], [''1'', ''7'']]), (''Costs'', [[''k''], [''3'']])]) = 2)"
proof -
  let ?sheets = "[(''Sales'', [[''q'', ''n''], [''1'', ''7'']]), (''Costs'', [[''k''], [''3'']])]"
  let ?base = "[''artifacts'', ''Book'']"
  let ?fs0 = "root_fs @ [([''artifacts'', ''Book''], Directory)]"
  have ext: "lstrip_dot (lower (suffix (Path (name workbook)))) = ''xlsx''" by code_simp
  have rd: "read_excel demo_engine (data workbook) = Inr ?sheets"
    by (simp add: demo_engine_def demo_read_excel_def workbook_def)
  have dist: "distinct (map fst ?sheets)" by simp
  have plain: "\<forall>s \<in> set ?sheets. CHR ''/'' \<notin> set (fst s)" by simp
  have base: "?base = joinpath out_root (stem (Path (name workbook)))" by code_simp
  have mk: "mkdir ?base root_fs = Inr ?fs0" by code_simp
  have la: "list_all (\<lambda>w. can_write ?fs0 (fst w)) (sheet_writes demo_engine ?base ?sheets)"
    by code_simp
  have w: "\<forall>s \<in> set ?sheets. \<forall>(n, c) \<in> set (sheet_files demo_engine (path_name ?base) s).
             can_write ?fs0 (joinpath ?base n)"
    by code_simp
  have nm: "path_name ?base = ''Book''" by (simp add: path_name_def)
  have j1: "joinpath ?base ''Book_Sales.csv'' = [''artifacts'', ''Book'', ''Book_Sales.csv'']"
    and j2: "joinpath ?base ''Book_Costs.txt'' = [''artifacts'', ''Book'', ''Book_Costs.txt'']"
    and j3: "joinpath ?base ''Book.md'' = [''artifacts'', ''Book'', ''Book.md'']"
    by code_simp+
  have none: "read_text ?fs0 [''artifacts'', ''Book'', ''Book.md''] = None" by code_simp
  from spreadsheet_bypass [OF ext rd dist plain base mk w, of "[]"] obtain fs' where
    run: "process_file demo_engine True (root_fs, []) workbook = Inr (fs', [])" and
    grp: "\<forall>s \<in> set ?sheets. \<forall>(n, c) \<in> set (sheet_files demo_engine (path_name ?base) s).
            read_text fs' (joinpath ?base n) = Some c" and
    dd: "\<forall>e \<in> {''.md'', ''.html'', ''.json'', ''.txt''}.
              read_text fs' (joinpath ?base (path_name ?base @ e)) =
                read_text ?fs0 (joinpath ?base (path_name ?base @ e))" and
    cd: "card ((\<lambda>s. path_name ?base @ ''_'' @ fst s) ` set ?sheets) = length ?sheets"
    by blast
  from grp have r1: "read_text fs' [''artifacts'', ''Book'', ''Book_Sales.csv''] = Some ''q,n\<newline>1,7''"
    using j1 by (simp add: nm sheet_files_def demo_engine_def csv_grid_def)
  from grp have r2: "read_text fs' [''artifacts'', ''Book'', ''Book_Costs.txt''] = Some ''k\<newline>3''"
    using j2 by (simp add: nm sheet_files_def demo_engine_def plain_grid_def)
  from dd have "read_text fs' (joinpath ?base (path_name ?base @ ''.md'')) =
      read_text ?fs0 (joinpath ?base (path_name ?base @ ''.md''))" by blast
  with j3 none have r3: "read_text fs' [''artifacts'', ''Book'', ''Book.md''] = None"
    by (simp add: nm)
  from cd have cd': "card ((\<lambda>s. ''Book'' @ ''_'' @ fst s) ` set ?sheets) = 2" by (simp add: nm)
  have "\<exists>fs'. process_file demo_engine True (root_fs, []) workbook = Inr (fs', []) \<and>
      read_text fs' [''artifacts'', ''Book'', ''Book_Sales.csv''] = Some ''q,n\<newline>1,7'' \<and>
      read_text fs' [''artifacts'', ''Book'', ''Book_Costs.txt''] = Some ''k\<newline>3'' \<and>
      read_text fs' [''artifacts'', ''Book'', ''Book.md''] = None \<and>
      card ((\<lambda>s. ''Book'' @ ''_'' @ fst s) ` set ?sheets) = 2"
    by (intro exI conjI) (rule run r1 r2 r3 cd')+
  with ext rd base [symmetric] mk la show ?thesis by (intro conjI)
qed


end
